theory Spec2Isabelle
  imports Complex_Main "HOL-Library.Code_Target_Numeral"
begin

section \<open>Schema and object utilities (src/utils.ts)\<close>

text \<open>
  A shallow embedding of the functions of \<^verbatim>\<open>src/utils.ts\<close>. Each TypeScript function
  is a HOL function of the same name. The objects the code builds with property
  assignment are association lists in the order JavaScript enumerates own properties.
  Where the behaviour depends on which object is which (\<open>matchSchema\<close>, whose validator
  writes to its argument and whose \<open>errors\<close> array is the caller's; \<open>mapObject\<close>, which
  hands the caller's object to the callback), values live in a store and the functions
  take and return it; what the code throws is a value of the type \<open>error\<close>.
\<close>

subsection \<open>Numbers\<close>

text \<open>
  A TypeScript \<^verbatim>\<open>number\<close> is an IEEE double: a finite value, one of the two infinities,
  or NaN. Comparison of doubles is exact, so the finite values are embedded in the reals
  (both zeros are the real 0). No arithmetic on numbers is modelled: the code does none.
\<close>

datatype number = NaN | NegInfinity | Finite real | PosInfinity

text \<open>The order of the values that are not NaN.\<close>

fun below :: "number \<Rightarrow> number \<Rightarrow> bool" where
  "below NegInfinity NegInfinity = False"
| "below NegInfinity _ = True"
| "below (Finite x) (Finite y) = (x < y)"
| "below (Finite x) PosInfinity = True"
| "below (Finite x) _ = False"
| "below PosInfinity _ = False"
| "below NaN _ = False"

text \<open>
  The relational operators of JavaScript on numbers: \<^verbatim>\<open>a < b\<close>, \<^verbatim>\<open>a <= b\<close> and
  \<^verbatim>\<open>a >= b\<close>. Each is false as soon as an operand is NaN.
\<close>

definition js_lt :: "number \<Rightarrow> number \<Rightarrow> bool" where
  "js_lt a b = (a \<noteq> NaN \<and> b \<noteq> NaN \<and> below a b)"

definition js_le :: "number \<Rightarrow> number \<Rightarrow> bool" where
  "js_le a b = (a \<noteq> NaN \<and> b \<noteq> NaN \<and> \<not> below b a)"

definition js_ge :: "number \<Rightarrow> number \<Rightarrow> bool" where
  "js_ge a b = (a \<noteq> NaN \<and> b \<noteq> NaN \<and> \<not> below a b)"

subsection \<open>resolve\<close>

text \<open>
  \<^verbatim>\<open>Resolvable<T> = T extends Function ? never : T | (() => T)\<close>: a value that is not a
  function, or a producer. The test \<^verbatim>\<open>typeof resolvable === 'function'\<close> tells the two
  apart, which is the case distinction on the constructor. A producer is arbitrary
  caller code: it runs in the caller's state \<open>'s\<close> and returns a value or throws \<open>'e\<close>.
\<close>

datatype ('a, 'e, 's) Resolvable = Value 'a | Producer "'s \<Rightarrow> ('e + 'a) \<times> 's"

definition resolve :: "('a, 'e, 's) Resolvable \<Rightarrow> 's \<Rightarrow> ('e + 'a) \<times> 's" where
  "resolve resolvable s =
     (case resolvable of Producer p \<Rightarrow> p s | Value v \<Rightarrow> (Inr v, s))"

subsection \<open>formatArray\<close>

text \<open>\<^verbatim>\<open>Array.prototype.join\<close> on an array of strings.\<close>

fun join :: "string \<Rightarrow> string list \<Rightarrow> string" where
  "join sep [] = []"
| "join sep [x] = x"
| "join sep (x # y # ys) = x @ sep @ join sep (y # ys)"

text \<open>The default value of the parameter \<^verbatim>\<open>prefix\<close>: a line feed and \<^verbatim>\<open>"  * "\<close>.\<close>

definition default_prefix :: string where
  "default_prefix = [CHR 0x0A, CHR '' '', CHR '' '', CHR ''*'', CHR '' '']"

text \<open>An omitted \<^verbatim>\<open>prefix\<close> is \<open>None\<close>.\<close>

definition formatArray :: "'a list \<Rightarrow> ('a \<Rightarrow> string) \<Rightarrow> string option \<Rightarrow> string" where
  "formatArray items formatter prefix =
     (let prefix = (case prefix of None \<Rightarrow> default_prefix | Some p \<Rightarrow> p)
      in join [] (map (\<lambda>item. prefix @ formatter item) items))"

subsection \<open>transform and oneOrMany\<close>

text \<open>
  \<^verbatim>\<open>OneOrMany<T> = T | Array<T>\<close>, told apart at run time by \<^verbatim>\<open>Array.isArray\<close>. A value
  is an array of values or something that is not an array; the elements of an array may
  be arrays themselves, as \<^verbatim>\<open>T\<close> may be an array type.
\<close>

datatype 'a OneOrMany = Scalar 'a | Array "'a OneOrMany list"

fun isArray :: "'a OneOrMany \<Rightarrow> bool" where
  "isArray (Array _) = True"
| "isArray (Scalar _) = False"

text \<open>
  A callback, as JavaScript calls it: \<^verbatim>\<open>func(value)\<close> passes the value alone (the other
  parameters are \<^verbatim>\<open>undefined\<close>, here \<open>None\<close>), and \<^verbatim>\<open>Array.prototype.map\<close> passes the
  element, its index and the array. The declared type of \<^verbatim>\<open>func\<close>, \<^verbatim>\<open>(value: T) => U\<close>, is
  that of a function that reads its first argument only (\<open>unary\<close>).
\<close>

type_synonym ('a, 'b) callback = "'a OneOrMany \<Rightarrow> nat option \<Rightarrow> 'a OneOrMany option \<Rightarrow> 'b OneOrMany"

definition unary :: "('a, 'b) callback \<Rightarrow> bool" where
  "unary func = (\<forall>x i a. func x i a = func x None None)"

text \<open>\<^verbatim>\<open>array.map(func)\<close>, for an array with the elements \<open>xs\<close>.\<close>

definition array_map :: "('a, 'b) callback \<Rightarrow> 'a OneOrMany list \<Rightarrow> 'b OneOrMany list" where
  "array_map func xs = map (\<lambda>(i, x). func x (Some i) (Some (Array xs))) (enumerate 0 xs)"

definition transform :: "'a OneOrMany \<Rightarrow> ('a, 'b) callback \<Rightarrow> 'b OneOrMany" where
  "transform v func =
     (case v of Array xs \<Rightarrow> Array (array_map func xs) | Scalar _ \<Rightarrow> func v None None)"

definition oneOrMany :: "('a, 'b) callback \<Rightarrow> 'a OneOrMany \<Rightarrow> 'b OneOrMany" where
  "oneOrMany func =
     (\<lambda>v. case v of Array xs \<Rightarrow> Array (array_map func xs) | Scalar _ \<Rightarrow> func v None None)"

text \<open>A callback to evaluate with: \<^verbatim>\<open>x => x * 2\<close> on numbers.\<close>

definition double :: "(int, int) callback" where
  "double x i a = (case x of Scalar n \<Rightarrow> Scalar (n * 2) | Array ys \<Rightarrow> x)"

text \<open>
  Another one: \<^verbatim>\<open>(x, step = 1) => x + step\<close> on numbers, a function with an optional
  second parameter; TypeScript accepts it where \<^verbatim>\<open>(value: T) => U\<close> is asked for.
\<close>

definition increment :: "(int, int) callback" where
  "increment x i a =
     (case x of
        Scalar n \<Rightarrow> Scalar (n + (case i of None \<Rightarrow> 1 | Some step \<Rightarrow> int step))
      | Array ys \<Rightarrow> x)"

subsection \<open>inRange\<close>

definition inRange :: "number \<Rightarrow> number \<Rightarrow> number \<Rightarrow> bool" where
  "inRange min' max' = (\<lambda>v. js_ge v min' \<and> js_lt v max')"

subsection \<open>Plain objects\<close>

text \<open>
  A plain object, as the literal \<^verbatim>\<open>{}\<close> creates it and property assignment fills it:
  its own enumerable string-keyed properties, in the order \<^verbatim>\<open>Object.entries\<close> lists
  them, and its prototype when that is no longer \<^verbatim>\<open>Object.prototype\<close>
  (\<open>proto = None\<close> is the object with the prototype it was created with). The keys of
  \<open>own\<close> are distinct in every object.
\<close>

record 'v js_object =
  own :: "(string \<times> 'v) list"
  proto :: "'v option"

definition empty_object :: "'v js_object" where
  "empty_object = \<lparr>own = [], proto = None\<rparr>"

text \<open>
  An array index is the canonical decimal numeral of an integer from 0 to \<open>2^32 - 2\<close>.
  Own properties whose key is an array index are enumerated first, in ascending numeric
  order; the other string keys follow in the order they were created.
\<close>

definition is_digit :: "char \<Rightarrow> bool" where
  "is_digit c = (48 \<le> (of_char c :: nat) \<and> (of_char c :: nat) \<le> 57)"

definition digits_value :: "string \<Rightarrow> nat" where
  "digits_value s = foldl (\<lambda>n c. 10 * n + ((of_char c :: nat) - 48)) 0 s"

definition array_index :: "string \<Rightarrow> nat option" where
  "array_index s =
     (if s \<noteq> [] \<and> list_all is_digit s \<and> (length s = 1 \<or> hd s \<noteq> CHR ''0'')
         \<and> digits_value s < 4294967295
      then Some (digits_value s) else None)"

fun insert_index :: "nat \<Rightarrow> string \<times> 'v \<Rightarrow> (string \<times> 'v) list \<Rightarrow> (string \<times> 'v) list" where
  "insert_index i e [] = [e]"
| "insert_index i e (p # ps) =
     (case array_index (fst p) of
        Some j \<Rightarrow> if j < i then p # insert_index i e ps else e # p # ps
      | None \<Rightarrow> e # p # ps)"

text \<open>
  \<^verbatim>\<open>CreateDataProperty\<close>: an existing own property keeps its place and takes the new
  value; a new one is created at its place in the enumeration order.
\<close>

definition define_own :: "string \<Rightarrow> 'v \<Rightarrow> (string \<times> 'v) list \<Rightarrow> (string \<times> 'v) list" where
  "define_own k v ps =
     (if map_of ps k \<noteq> None then map (\<lambda>p. if fst p = k then (k, v) else p) ps
      else case array_index k of
             Some i \<Rightarrow> insert_index i (k, v) ps
           | None \<Rightarrow> ps @ [(k, v)])"

text \<open>
  The assignment \<^verbatim>\<open>obj[k] = v\<close> on a plain object. For every key but \<^verbatim>\<open>"__proto__"\<close> it
  creates or updates the own property. \<^verbatim>\<open>Object.prototype\<close> has an accessor property
  \<^verbatim>\<open>__proto__\<close>: unless the object has an own property of that name, the assignment
  runs the accessor's setter, which replaces the object's prototype when \<open>v\<close> is an
  object or \<^verbatim>\<open>null\<close> (\<open>settable v\<close>), does nothing otherwise, and creates no own
  property in either case.
\<close>

definition assign :: "('v \<Rightarrow> bool) \<Rightarrow> 'v js_object \<Rightarrow> string \<Rightarrow> 'v \<Rightarrow> 'v js_object" where
  "assign settable obj k v =
     (if k = ''__proto__'' \<and> map_of (own obj) k = None
      then (if settable v then obj\<lparr>proto := Some v\<rparr> else obj)
      else obj\<lparr>own := define_own k v (own obj)\<rparr>)"

text \<open>\<^verbatim>\<open>Object.entries\<close> and \<^verbatim>\<open>Object.fromEntries\<close> (which creates data properties).\<close>

definition entries :: "'v js_object \<Rightarrow> (string \<times> 'v) list" where
  "entries obj = own obj"

definition fromEntries :: "(string \<times> 'v) list \<Rightarrow> 'v js_object" where
  "fromEntries es = \<lparr>own = foldl (\<lambda>ps (k, v). define_own k v ps) [] es, proto = None\<rparr>"

subsection \<open>JSON values\<close>

text \<open>
  A JSON text, as its syntax tree. Schemas (\<^verbatim>\<open>SchemaObject | ReferenceObject\<close>) are
  JSON objects.
\<close>

datatype json =
    JNull
  | JBool bool
  | JNum real
  | JStr string
  | JArr "json list"
  | JObj "(string \<times> json) list"

text \<open>What the setter of \<^verbatim>\<open>__proto__\<close> accepts: an object (or array), or \<^verbatim>\<open>null\<close>.\<close>

fun object_or_null :: "json \<Rightarrow> bool" where
  "object_or_null (JObj _) = True"
| "object_or_null (JArr _) = True"
| "object_or_null JNull = True"
| "object_or_null _ = False"

subsection \<open>getParameterMap\<close>

text \<open>
  The operation's \<^verbatim>\<open>parameters\<close> are \<^verbatim>\<open>(ReferenceObject | ParameterObject)[]\<close>. Of a
  parameter object the code reads \<^verbatim>\<open>name\<close>, \<^verbatim>\<open>in\<close>, \<^verbatim>\<open>required\<close> and \<^verbatim>\<open>schema\<close>; a
  field that is absent is \<open>None\<close>. The field \<^verbatim>\<open>in\<close> is optional here so that parameter
  objects that lack it are covered, as the test \<^verbatim>\<open>'in' in parameter\<close> covers them.
\<close>

record ParameterObject =
  name :: string
  in' :: "string option"
  required :: "bool option"
  schema :: "json option"

record ReferenceObject =
  ref :: string

datatype parameter_item = Reference ReferenceObject | Parameter ParameterObject

record OperationObject =
  parameters :: "parameter_item list option"

datatype ParameterType = Header | Query | Path | Cookie

fun type_string :: "ParameterType \<Rightarrow> string" where
  "type_string Header = ''header''"
| "type_string Query = ''query''"
| "type_string Path = ''path''"
| "type_string Cookie = ''cookie''"

definition getParameterMap :: "OperationObject \<Rightarrow> ParameterType \<Rightarrow> ParameterObject js_object" where
  "getParameterMap operation type =
     foldl (\<lambda>result parameter.
              case parameter of
                Parameter p \<Rightarrow>
                  if in' p \<noteq> None \<and> in' p = Some (type_string type)
                  then assign (\<lambda>_. True) result (name p) p
                  else result
              | Reference r \<Rightarrow> result)
       empty_object
       (case parameters operation of None \<Rightarrow> [] | Some ps \<Rightarrow> ps)"

subsection \<open>getParametersSchema\<close>

text \<open>
  The returned \<^verbatim>\<open>OpenAPIV3.SchemaObject\<close>, of which every field is optional; the four
  fields the function can set are modelled.
\<close>

record SchemaObject =
  type :: "string option"
  required :: "string list option"
  properties :: "json js_object option"
  additionalProperties :: "bool option"

text \<open>
  The loop body, on \<^verbatim>\<open>result.required\<close> and \<^verbatim>\<open>result.properties\<close>: the two fields of
  the local \<^verbatim>\<open>result\<close> that the loop changes.
\<close>

definition add_parameter ::
  "string list \<times> json js_object \<Rightarrow> string \<times> ParameterObject \<Rightarrow> string list \<times> json js_object" where
  "add_parameter result entry =
     (case (result, entry) of ((result_required, result_properties), (name', parameter)) \<Rightarrow>
        let required' = (case ParameterObject.required parameter of None \<Rightarrow> False | Some b \<Rightarrow> b);
            schema' = (case ParameterObject.schema parameter of None \<Rightarrow> JObj [] | Some s \<Rightarrow> s);
            result_properties = assign object_or_null result_properties name' schema'
        in if required' then (result_required @ [name'], result_properties)
           else (result_required, result_properties))"

definition getParametersSchema :: "ParameterObject js_object \<Rightarrow> SchemaObject" where
  "getParametersSchema parameters' =
     (case foldl add_parameter ([], empty_object) (entries parameters') of
        (result_required, result_properties) \<Rightarrow>
          \<lparr>type = Some ''object'',
           required = Some result_required,
           properties = Some result_properties,
           additionalProperties = Some True\<rparr>)"

subsection \<open>Values in a store\<close>

text \<open>
  \<open>matchSchema\<close> hands a copy of its argument to a validator that changes the object it
  is given, and appends to the caller's array. What the caller can observe therefore
  depends on which objects are shared, and objects live in a store: a list of cells, an
  object or an array each, addressed by their index. A value is a primitive or the
  address of a cell. The model covers what JSON covers: \<^verbatim>\<open>undefined\<close>, \<^verbatim>\<open>null\<close>,
  booleans, numbers, strings, plain objects and arrays with data properties (no
  functions, accessors, \<^verbatim>\<open>toJSON\<close> methods or symbols).
\<close>

datatype jsval = Undefined | Null | Bool bool | Num number | Str string | Ref nat

datatype cell = ObjCell "(string \<times> jsval) list" | ArrCell "jsval list"

type_synonym heap = "cell list"

datatype error = TypeError | SyntaxError | RangeError | EngineError | CallbackError

text \<open>
  The exceptions of the code: \<^verbatim>\<open>JSON.stringify\<close> throws a \<^verbatim>\<open>TypeError\<close> on a circular
  structure, \<^verbatim>\<open>JSON.parse\<close> a \<^verbatim>\<open>SyntaxError\<close> on a text that is not JSON, a call with
  more arguments than the JavaScript engine accepts a \<^verbatim>\<open>RangeError\<close>; the validation
  engine and a caller's callback may throw errors of their own.
\<close>

subsection \<open>JSON.stringify and JSON.parse\<close>

text \<open>The measure of the recursion: the cells of the store that are not on the stack.\<close>

lemma unvisited_less:
  "a \<notin> set stack \<Longrightarrow> a < n \<Longrightarrow> card ({..<n} - set (a # stack)) < card ({..<n::nat} - set stack)"
  by (rule psubset_card_mono) auto

lemma unvisited_pos:
  "a \<notin> set stack \<Longrightarrow> a < n \<Longrightarrow> 0 < card ({..<n::nat} - set stack)"
  by (auto simp: card_gt_0_iff)

text \<open>
  \<^verbatim>\<open>JSON.stringify(value)\<close>, by the structure of the value, with the JSON text as its
  syntax tree. The stack holds the objects being serialised: meeting one of them again
  is a circular structure. \<^verbatim>\<open>undefined\<close> has no JSON text (the result \<open>None\<close> is
  \<^verbatim>\<open>undefined\<close>): as the value of a property the property is left out, as an element of an
  array it becomes \<^verbatim>\<open>null\<close>. NaN and the infinities become \<^verbatim>\<open>null\<close>. An address outside
  the store is not a value of any program; the model answers \<^verbatim>\<open>TypeError\<close> there.
\<close>

function JSON_stringify_value :: "heap \<Rightarrow> nat list \<Rightarrow> jsval \<Rightarrow> error + json option"
  and JSON_stringify_props :: "heap \<Rightarrow> nat list \<Rightarrow> (string \<times> jsval) list \<Rightarrow> error + (string \<times> json) list"
  and JSON_stringify_elems :: "heap \<Rightarrow> nat list \<Rightarrow> jsval list \<Rightarrow> error + json list"
where
  "JSON_stringify_value h stack Undefined = Inr None"
| "JSON_stringify_value h stack Null = Inr (Some JNull)"
| "JSON_stringify_value h stack (Bool b) = Inr (Some (JBool b))"
| "JSON_stringify_value h stack (Num n) = Inr (Some (case n of Finite r \<Rightarrow> JNum r | _ \<Rightarrow> JNull))"
| "JSON_stringify_value h stack (Str s) = Inr (Some (JStr s))"
| "JSON_stringify_value h stack (Ref a) =
     (if a \<in> set stack \<or> \<not> a < length h then Inl TypeError
      else case h ! a of
             ObjCell ps \<Rightarrow>
               (case JSON_stringify_props h (a # stack) ps of
                  Inl e \<Rightarrow> Inl e
                | Inr members \<Rightarrow> Inr (Some (JObj members)))
           | ArrCell xs \<Rightarrow>
               (case JSON_stringify_elems h (a # stack) xs of
                  Inl e \<Rightarrow> Inl e
                | Inr elements \<Rightarrow> Inr (Some (JArr elements))))"
| "JSON_stringify_props h stack [] = Inr []"
| "JSON_stringify_props h stack (p # ps) =
     (case JSON_stringify_value h stack (snd p) of
        Inl e \<Rightarrow> Inl e
      | Inr None \<Rightarrow> JSON_stringify_props h stack ps
      | Inr (Some j) \<Rightarrow>
          (case JSON_stringify_props h stack ps of
             Inl e \<Rightarrow> Inl e
           | Inr members \<Rightarrow> Inr ((fst p, j) # members)))"
| "JSON_stringify_elems h stack [] = Inr []"
| "JSON_stringify_elems h stack (x # xs) =
     (case JSON_stringify_value h stack x of
        Inl e \<Rightarrow> Inl e
      | Inr j \<Rightarrow>
          (case JSON_stringify_elems h stack xs of
             Inl e \<Rightarrow> Inl e
           | Inr elements \<Rightarrow> Inr ((case j of None \<Rightarrow> JNull | Some j' \<Rightarrow> j') # elements)))"
  by pat_completeness auto

termination
  by (relation "measures
        [\<lambda>x. case x of
                Inl (h, stack, v) \<Rightarrow> card ({..<length h} - set stack)
              | Inr (Inl (h, stack, ps)) \<Rightarrow> card ({..<length h} - set stack)
              | Inr (Inr (h, stack, xs)) \<Rightarrow> card ({..<length h} - set stack),
         \<lambda>x. case x of
                Inl (h, stack, v) \<Rightarrow> 0
              | Inr (Inl (h, stack, ps)) \<Rightarrow> Suc (length ps)
              | Inr (Inr (h, stack, xs)) \<Rightarrow> Suc (length xs)]")
     (auto simp: unvisited_less unvisited_pos)

text \<open>
  \<^verbatim>\<open>JSON.parse\<close> of a JSON text builds new objects: every object and array of the text
  is a new cell of the store. The properties of an object are created in the order of
  the text, as \<^verbatim>\<open>Object.fromEntries\<close> creates them.
\<close>

fun JSON_parse_value :: "heap \<Rightarrow> json \<Rightarrow> jsval \<times> heap"
  and JSON_parse_props :: "heap \<Rightarrow> (string \<times> json) list \<Rightarrow> (string \<times> jsval) list \<times> heap"
  and JSON_parse_elems :: "heap \<Rightarrow> json list \<Rightarrow> jsval list \<times> heap"
where
  "JSON_parse_value h JNull = (Null, h)"
| "JSON_parse_value h (JBool b) = (Bool b, h)"
| "JSON_parse_value h (JNum r) = (Num (Finite r), h)"
| "JSON_parse_value h (JStr s) = (Str s, h)"
| "JSON_parse_value h (JArr js) =
     (case JSON_parse_elems h js of
        (vs, h') \<Rightarrow> (Ref (length h'), h' @ [ArrCell vs]))"
| "JSON_parse_value h (JObj ms) =
     (case JSON_parse_props h ms of
        (kvs, h') \<Rightarrow> (Ref (length h'), h' @ [ObjCell (own (fromEntries kvs))]))"
| "JSON_parse_props h [] = ([], h)"
| "JSON_parse_props h (m # ms) =
     (case JSON_parse_value h (snd m) of
        (v, h1) \<Rightarrow> (case JSON_parse_props h1 ms of (kvs, h2) \<Rightarrow> ((fst m, v) # kvs, h2)))"
| "JSON_parse_elems h [] = ([], h)"
| "JSON_parse_elems h (j # js) =
     (case JSON_parse_value h j of
        (v, h1) \<Rightarrow> (case JSON_parse_elems h1 js of (vs, h2) \<Rightarrow> (v # vs, h2)))"

text \<open>
  \<^verbatim>\<open>JSON.parse(text)\<close> converts its argument to a string first: for \<^verbatim>\<open>undefined\<close> that is
  the string \<^verbatim>\<open>"undefined"\<close>, which is not a JSON text.
\<close>

definition JSON_stringify :: "heap \<Rightarrow> jsval \<Rightarrow> error + json option" where
  "JSON_stringify h v = JSON_stringify_value h [] v"

definition JSON_parse :: "heap \<Rightarrow> json option \<Rightarrow> (error + jsval) \<times> heap" where
  "JSON_parse h text =
     (case text of
        None \<Rightarrow> (Inl SyntaxError, h)
      | Some j \<Rightarrow> (case JSON_parse_value h j of (v, h') \<Rightarrow> (Inr v, h')))"

definition cloneObject :: "heap \<Rightarrow> jsval \<Rightarrow> (error + jsval) \<times> heap" where
  "cloneObject h source =
     (case JSON_stringify h source of
        Inl e \<Rightarrow> (Inl e, h)
      | Inr text \<Rightarrow> JSON_parse h text)"

subsection \<open>mapObject\<close>

text \<open>
  \<open>mapObject\<close> passes the object itself to \<^verbatim>\<open>func\<close>, as its third argument, and the type
  \<^verbatim>\<open>Record<K, V>\<close> of that parameter lets \<^verbatim>\<open>func\<close> assign to it: the object lives in the
  store. A callback \<^verbatim>\<open>func(value, key, obj)\<close> is caller's code, called in a store: it
  returns a value or throws, and leaves a store.
\<close>

type_synonym mapper = "heap \<Rightarrow> jsval \<Rightarrow> string \<Rightarrow> jsval \<Rightarrow> (error + jsval) \<times> heap"

text \<open>
  \<^verbatim>\<open>Object.entries\<close> of a cell: the properties of an object; of an array its elements,
  under their indices as decimal numerals.
\<close>

function index_key :: "nat \<Rightarrow> string" where
  "index_key n =
     (if n < 10 then [char_of (48 + n)]
      else index_key (n div 10) @ [char_of (48 + n mod 10)])"
  by pat_completeness auto

termination
  by (relation "measure id") auto

declare index_key.simps [simp del]

definition cell_entries :: "cell \<Rightarrow> (string \<times> jsval) list" where
  "cell_entries c =
     (case c of
        ObjCell ps \<Rightarrow> ps
      | ArrCell xs \<Rightarrow> zip (map index_key [0..<length xs]) xs)"

text \<open>
  \<^verbatim>\<open>.map(([k, v]) => [k, func(v, k, obj)])\<close> over the entries: the calls are made in the
  order of the entries, each in the store the one before left; an exception ends the
  loop.
\<close>

fun map_entries ::
  "mapper \<Rightarrow> jsval \<Rightarrow> heap \<Rightarrow> (string \<times> jsval) list \<Rightarrow> (error + (string \<times> jsval) list) \<times> heap" where
  "map_entries func obj h [] = (Inr [], h)"
| "map_entries func obj h (e # es) =
     (case func h (snd e) (fst e) obj of
        (Inl err, h1) \<Rightarrow> (Inl err, h1)
      | (Inr w, h1) \<Rightarrow>
          (case map_entries func obj h1 es of
             (Inl err, h2) \<Rightarrow> (Inl err, h2)
           | (Inr ws, h2) \<Rightarrow> (Inr ((fst e, w) # ws), h2)))"

text \<open>
  \<open>mapObject\<close> on the object at the address \<open>obj\<close>: the entries are read first, then
  mapped, and \<^verbatim>\<open>Object.fromEntries\<close> builds a new object. An address outside the store is
  not a value of any program; the model answers \<^verbatim>\<open>TypeError\<close> there.
\<close>

definition mapObject :: "heap \<Rightarrow> nat \<Rightarrow> mapper \<Rightarrow> (error + jsval) \<times> heap" where
  "mapObject h obj func =
     (if obj < length h
      then (case map_entries func (Ref obj) h (cell_entries (h ! obj)) of
              (Inl err, h1) \<Rightarrow> (Inl err, h1)
            | (Inr es, h1) \<Rightarrow> (Inr (Ref (length h1)), h1 @ [ObjCell (own (fromEntries es))]))
      else (Inl TypeError, h))"

text \<open>
  Callbacks to evaluate with. \<^verbatim>\<open>value => [value]\<close> allocates and changes nothing;
  \<^verbatim>\<open>(value, key, obj) => { obj[key] = 0; return value }\<close> assigns to the object it is
  given (here for an object, not an array); the third one throws.
\<close>

definition wrap :: mapper where
  "wrap h v k obj = (Inr (Ref (length h)), h @ [ArrCell [v]])"


definition fail :: mapper where
  "fail h v k obj = (Inl CallbackError, h)"

text \<open>\<^verbatim>\<open>v => v + 1\<close> on numbers: it reads its first argument only and touches no object.\<close>

definition plus_one :: mapper where
  "plus_one h v k obj =
     (case v of
        Num (Finite x) \<Rightarrow> (Inr (Num (Finite (x + 1))), h)
      | _ \<Rightarrow> (Inr v, h))"

subsection \<open>The validation engine\<close>

text \<open>
  Ajv and ajv-formats are libraries, not code of this repository: the engine is a
  parameter. \<^verbatim>\<open>new Ajv(options)\<close> and \<^verbatim>\<open>addFormats(ajv)\<close> throw or give an instance,
  \<^verbatim>\<open>compile(schema)\<close> throws or gives a validator. A validator is called on a value in a
  store; it may change the store (it coerces the data in place and allocates). It
  throws, or it returns and leaves in \<^verbatim>\<open>validate.errors\<close> either \<^verbatim>\<open>null\<close> (\<open>None\<close>) or the
  array of its error records.
\<close>

type_synonym validator = "heap \<Rightarrow> jsval \<Rightarrow> (error + jsval list option) \<times> heap"

record ('ajv, 'schema) engine =
  new_Ajv :: "(string \<times> jsval) list \<Rightarrow> error + 'ajv"
  addFormats :: "'ajv \<Rightarrow> error + 'ajv"
  compile :: "'ajv \<Rightarrow> 'schema \<Rightarrow> error + validator"

subsection \<open>matchSchema\<close>

text \<open>
  \<^verbatim>\<open>errors.push(...items)\<close> on the array at an address. The spread passes every item as
  an argument of the call, and a JavaScript engine accepts only so many arguments:
  \<open>max_arguments\<close>, a parameter, is the largest number it accepts; with more the call
  throws a \<^verbatim>\<open>RangeError\<close> and pushes nothing.
\<close>

definition push :: "nat \<Rightarrow> heap \<Rightarrow> nat \<Rightarrow> jsval list \<Rightarrow> error + heap" where
  "push max_arguments h a items =
     (if a < length h
      then (case h ! a of
              ArrCell xs \<Rightarrow>
                if length items \<le> max_arguments then Inr (h[a := ArrCell (xs @ items)])
                else Inl RangeError
            | ObjCell ps \<Rightarrow> Inl TypeError)
      else Inl TypeError)"

text \<open>
  The options \<^verbatim>\<open>{...ajvOptions, coerceTypes: 'array'}\<close>: the own properties of
  \<^verbatim>\<open>ajvOptions\<close> (none when it is omitted), then \<^verbatim>\<open>coerceTypes\<close>; \<open>configure\<close> is
  \<^verbatim>\<open>addFormats(new Ajv({...ajvOptions, coerceTypes: 'array'}))\<close>.
\<close>

definition configure ::
  "('ajv, 'schema) engine \<Rightarrow> (string \<times> jsval) list option \<Rightarrow> error + 'ajv" where
  "configure eng ajvOptions =
     (case new_Ajv eng
             (own (fromEntries
                ((case ajvOptions of None \<Rightarrow> [] | Some opts \<Rightarrow> opts)
                   @ [(''coerceTypes'', Str ''array'')]))) of
        Inl e \<Rightarrow> Inl e
      | Inr ajv \<Rightarrow> addFormats eng ajv)"

text \<open>
  \<open>matchSchema\<close>, in a JavaScript engine with the argument limit \<open>max_arguments\<close>, with
  the validation engine \<open>eng\<close>, in the store \<open>h\<close>; \<open>errors\<close> is the address of the caller's
  array. The result is the value returned or the exception thrown, and the store
  afterwards.
\<close>

definition matchSchema ::
  "nat \<Rightarrow> ('ajv, 'schema) engine \<Rightarrow> heap \<Rightarrow> jsval \<Rightarrow> 'schema \<Rightarrow> nat \<Rightarrow> (string \<times> jsval) list option
     \<Rightarrow> (error + jsval) \<times> heap" where
  "matchSchema max_arguments eng h source schema' errors ajvOptions =
     (case cloneObject h source of
        (Inl e, h1) \<Rightarrow> (Inl e, h1)
      | (Inr result, h1) \<Rightarrow>
          (case configure eng ajvOptions of
             Inl e \<Rightarrow> (Inl e, h1)
           | Inr ajv \<Rightarrow>
               (case compile eng ajv schema' of
                  Inl e \<Rightarrow> (Inl e, h1)
                | Inr validate \<Rightarrow>
                    (case validate h1 result of
                       (Inl e, h2) \<Rightarrow> (Inl e, h2)
                     | (Inr None, h2) \<Rightarrow> (Inr result, h2)
                     | (Inr (Some validate_errors), h2) \<Rightarrow>
                         (case push max_arguments h2 errors validate_errors of
                            Inl e \<Rightarrow> (Inl e, h2)
                          | Inr h3 \<Rightarrow> (Inr result, h3))))))"

subsection \<open>A sample engine\<close>

text \<open>
  An engine to evaluate \<open>matchSchema\<close> with, for two kinds of schema:
  \<^verbatim>\<open>{type: 'object'}\<close>, and \<^verbatim>\<open>{type: 'object', properties: {k: {type: 'array'}}}\<close>. Data that
  is not an object is an error, reported as one new error record. With the second
  schema the property \<open>k\<close> of the data, when it is present, must be an array: a
  primitive value is coerced as \<^verbatim>\<open>coerceTypes: 'array'\<close> asks (it is wrapped in a new
  one-element array, assigned to the property of the data object), an object is an
  error. Nothing of this engine throws.
\<close>

datatype sample_schema = TypeObject | ArrayProperty string

definition type_error :: "string \<Rightarrow> string \<Rightarrow> cell" where
  "type_error dataPath message =
     ObjCell [(''keyword'', Str ''type''), (''dataPath'', Str dataPath), (''message'', Str message)]"

fun is_array_ref :: "heap \<Rightarrow> jsval \<Rightarrow> bool" where
  "is_array_ref h (Ref a) = (a < length h \<and> (case h ! a of ArrCell xs \<Rightarrow> True | ObjCell ps \<Rightarrow> False))"
| "is_array_ref h _ = False"

fun is_ref :: "jsval \<Rightarrow> bool" where
  "is_ref (Ref a) = True"
| "is_ref _ = False"

definition sample_validate :: "sample_schema \<Rightarrow> validator" where
  "sample_validate s h v =
     (case v of
        Ref a \<Rightarrow>
          (if a < length h
           then (case h ! a of
                   ObjCell ps \<Rightarrow>
                     (case s of
                        TypeObject \<Rightarrow> (Inr None, h)
                      | ArrayProperty k \<Rightarrow>
                          (case map_of ps k of
                             None \<Rightarrow> (Inr None, h)
                           | Some x \<Rightarrow>
                               if x = Undefined \<or> is_array_ref h x then (Inr None, h)
                               else if is_ref x
                               then (Inr (Some [Ref (length h)]),
                                     h @ [type_error (CHR ''.'' # k) ''should be array''])
                               else (Inr None,
                                     h[a := ObjCell (define_own k (Ref (length h)) ps)] @ [ArrCell [x]])))
                 | ArrCell xs \<Rightarrow>
                     (Inr (Some [Ref (length h)]), h @ [type_error [] ''should be object'']))
           else (Inr (Some [Ref (length h)]), h @ [type_error [] ''should be object'']))
      | _ \<Rightarrow> (Inr (Some [Ref (length h)]), h @ [type_error [] ''should be object'']))"

definition sample_engine :: "(unit, sample_schema) engine" where
  "sample_engine = \<lparr>new_Ajv = (\<lambda>options. Inr ()), addFormats = (\<lambda>ajv. Inr ajv),
                     compile = (\<lambda>ajv s. Inr (sample_validate s))\<rparr>"

text \<open>The argument limit used in the evaluations.\<close>

definition sample_limit :: nat where
  "sample_limit = 65535"

subsection \<open>Notions used to state the properties\<close>

text \<open>
  These are not functions of the source. \<open>kept\<close> lists, in the operation's order, the
  parameter objects whose \<^verbatim>\<open>in\<close> is the location asked for; \<open>last_named k\<close> is the last
  of a list of parameters with the name \<open>k\<close>; \<open>assign_all\<close> is the loop of
  \<open>getParameterMap\<close> over the kept parameters; \<open>declared_schema\<close> and \<open>is_required\<close>
  read a parameter's \<^verbatim>\<open>schema\<close> and \<^verbatim>\<open>required\<close> with their defaults.
\<close>

definition kept :: "OperationObject \<Rightarrow> ParameterType \<Rightarrow> ParameterObject list" where
  "kept operation t =
     concat (map (\<lambda>item. case item of
                      Parameter p \<Rightarrow> if in' p = Some (type_string t) then [p] else []
                    | Reference r \<Rightarrow> [])
              (case parameters operation of None \<Rightarrow> [] | Some ps \<Rightarrow> ps))"

definition last_named :: "string \<Rightarrow> ParameterObject list \<Rightarrow> ParameterObject option" where
  "last_named k ps =
     (let qs = filter (\<lambda>p. name p = k) ps in if qs = [] then None else Some (last qs))"

definition assign_all :: "ParameterObject js_object \<Rightarrow> ParameterObject list \<Rightarrow> ParameterObject js_object" where
  "assign_all obj ps = foldl (\<lambda>result p. assign (\<lambda>_. True) result (name p) p) obj ps"

definition declared_schema :: "ParameterObject \<Rightarrow> json" where
  "declared_schema p = (case ParameterObject.schema p of None \<Rightarrow> JObj [] | Some s \<Rightarrow> s)"

definition is_required :: "ParameterObject \<Rightarrow> bool" where
  "is_required p = (ParameterObject.required p = Some True)"


text \<open>A callback that only allocates: the store it leaves is the store it was called in,
  followed by new cells.\<close>

definition allocates_only :: "mapper \<Rightarrow> bool" where
  "allocates_only func = (\<forall>h v k obj. \<exists>cells. snd (func h v k obj) = h @ cells)"

text \<open>
  The cells a value reaches in a store: the cell it addresses, and the cells the values
  in those address.
\<close>

fun cell_values :: "cell \<Rightarrow> jsval set" where
  "cell_values (ObjCell ps) = snd ` set ps"
| "cell_values (ArrCell xs) = set xs"

inductive_set reach :: "heap \<Rightarrow> jsval \<Rightarrow> nat set" for h :: heap and v :: jsval where
  root: "v = Ref a \<Longrightarrow> a \<in> reach h v"
| step: "a \<in> reach h v \<Longrightarrow> a < length h \<Longrightarrow> Ref b \<in> cell_values (h ! a) \<Longrightarrow> b \<in> reach h v"

text \<open>
  What is assumed of a validator: it may allocate, and of the cells that exist when it
  is called it changes only those reachable from the value it is given. (The source
  says as much: "Ajv mutates the passed object so we pass a copy".) An engine is
  well-behaved when every validator it compiles is.
\<close>

definition frame_ok :: "validator \<Rightarrow> bool" where
  "frame_ok validate =
     (\<forall>h v. length h \<le> length (snd (validate h v)) \<and>
            (\<forall>a. a < length h \<and> a \<notin> reach h v \<longrightarrow> snd (validate h v) ! a = h ! a))"

definition engine_ok :: "('ajv, 'schema) engine \<Rightarrow> bool" where
  "engine_ok eng = (\<forall>ajv s validate. compile eng ajv s = Inr validate \<longrightarrow> frame_ok validate)"

text \<open>
  \<open>refs_within lo hi v\<close>: if \<open>v\<close> is an address, it lies from \<open>lo\<close> up to, not including,
  \<open>hi\<close>; \<open>cells_within\<close>: so do all values in the cells.
\<close>

definition refs_within :: "nat \<Rightarrow> nat \<Rightarrow> jsval \<Rightarrow> bool" where
  "refs_within lo hi v = (case v of Ref a \<Rightarrow> lo \<le> a \<and> a < hi | _ \<Rightarrow> True)"

definition cells_within :: "nat \<Rightarrow> nat \<Rightarrow> cell list \<Rightarrow> bool" where
  "cells_within lo hi cs = (\<forall>c \<in> set cs. \<forall>x \<in> cell_values c. refs_within lo hi x)"

section \<open>Properties\<close>

subsection \<open>resolve\<close>

text \<open>
  C5. \<open>resolve\<close> of a producer is the producer's own outcome (its result or its failure,
  and its effect on the caller's state); \<open>resolve\<close> of a value that is not callable is
  that value, with no effect.
\<close>

theorem resolve_spec:
  "resolve (Producer p) s = p s \<and> resolve (Value v) s = (Inr v, s)"
  by (simp add: resolve_def)

subsection \<open>transform and oneOrMany\<close>

lemma length_array_map: "length (array_map func xs) = length xs"
  by (simp add: array_map_def)

lemma nth_array_map:
  "i < length xs \<Longrightarrow> array_map func xs ! i = func (xs ! i) (Some i) (Some (Array xs))"
  by (simp add: array_map_def nth_enumerate_eq)

lemma array_map_unary: "unary func \<Longrightarrow> array_map func xs = map (\<lambda>x. func x None None) xs"
proof (rule nth_equalityI)
  show "length (array_map func xs) = length (map (\<lambda>x. func x None None) xs)"
    by (simp add: length_array_map)
next
  fix i assume "unary func" and "i < length (array_map func xs)"
  then have i: "i < length xs" by (simp add: length_array_map)
  have "func (xs ! i) (Some i) (Some (Array xs)) = func (xs ! i) None None"
    using \<open>unary func\<close> unfolding unary_def by blast
  with i show "array_map func xs ! i = map (\<lambda>x. func x None None) xs ! i"
    by (simp add: nth_array_map)
qed

text \<open>
  What holds for every \<open>func\<close>: \<open>transform v func\<close> and \<open>oneOrMany func v\<close> are the same
  value. On an array the result is an array of the same length whose element at each
  index is \<open>func\<close> called on the element at that index as \<^verbatim>\<open>map\<close> calls it, with the index
  and the array as further arguments; for a function that reads the element only, it is
  the list of \<open>func\<close> of each element. On anything else the result is \<open>func\<close> of the value.
\<close>

lemma transform_oneOrMany_calls:
  "transform v func = oneOrMany func v \<and>
   (\<exists>ys. transform (Array xs) func = Array ys \<and> length ys = length xs \<and>
         (\<forall>i. i < length xs \<longrightarrow> ys ! i = func (xs ! i) (Some i) (Some (Array xs)))) \<and>
   (unary func \<longrightarrow> transform (Array xs) func = Array (map (\<lambda>x. func x None None) xs)) \<and>
   (\<not> isArray v \<longrightarrow> transform v func = func v None None)"
proof -
  have same: "transform v func = oneOrMany func v"
    by (simp add: transform_def oneOrMany_def)
  have many: "transform (Array xs) func = Array (array_map func xs)"
    by (simp add: transform_def)
  have one: "transform v func = func v None None" if "\<not> isArray v"
    using that by (cases v) (simp_all add: transform_def)
  from same many one show ?thesis
    by (auto simp: length_array_map nth_array_map array_map_unary)
qed

text \<open>The examples of the specification, with \<^verbatim>\<open>x => x * 2\<close>.\<close>

lemma transform_oneOrMany_example:
  "unary double \<and>
   transform (Array [Scalar 1, Scalar 2, Scalar 3]) double = Array [Scalar 2, Scalar 4, Scalar 6] \<and>
   \<not> isArray (Scalar (5::int)) \<and>
   transform (Scalar 5) double = Scalar 10"
proof -
  have u: "unary double" by (simp add: unary_def double_def)
  have scalar: "\<not> isArray (Scalar (5::int))" by simp
  note spec = transform_oneOrMany_calls[of "Scalar 5" double "[Scalar 1, Scalar 2, Scalar 3]"]
  from spec u have many: "transform (Array [Scalar 1, Scalar 2, Scalar 3]) double
      = Array (map (\<lambda>x. double x None None) [Scalar 1, Scalar 2, Scalar 3])"
    by blast
  from spec scalar have one: "transform (Scalar 5) double = double (Scalar 5) None None"
    by blast
  from u scalar many one show ?thesis by (simp add: double_def)
qed

text \<open>
  C6. The claim fails on arrays for a function that reads more than its first argument:
  \<^verbatim>\<open>value.map(func)\<close> hands \<open>func\<close> itself to \<^verbatim>\<open>map\<close>, which calls it with the element, the
  index and the array, where the other branch calls \<^verbatim>\<open>func(value)\<close>. With
  \<^verbatim>\<open>(x, step = 1) => x + step\<close>, \<open>transform\<close> and \<open>oneOrMany\<close> give \<^verbatim>\<open>[1, 3, 5]\<close> on
  \<^verbatim>\<open>[1, 2, 3]\<close>, each element plus its index; the function applied to each element gives
  \<^verbatim>\<open>[2, 3, 4]\<close>, and on the single value \<^verbatim>\<open>1\<close> both give \<^verbatim>\<open>2\<close>.
\<close>

theorem transform_passes_index:
  "transform (Array [Scalar 1, Scalar 2, Scalar 3]) increment = Array [Scalar 1, Scalar 3, Scalar 5] \<and>
   oneOrMany increment (Array [Scalar 1, Scalar 2, Scalar 3]) = Array [Scalar 1, Scalar 3, Scalar 5] \<and>
   map (\<lambda>x. increment x None None) [Scalar 1, Scalar 2, Scalar 3] = [Scalar 2, Scalar 3, Scalar 4] \<and>
   transform (Scalar 1) increment = Scalar 2"
  by (simp add: transform_def oneOrMany_def array_map_def increment_def enumerate_eq_zip upt_rec)

subsection \<open>inRange\<close>

lemma below_irrefl: "\<not> below a a"
  by (cases a) simp_all

lemma below_trans: "below a b \<Longrightarrow> below b c \<Longrightarrow> below a c"
  by (cases a; cases b; cases c) simp_all

lemma below_total: "a \<noteq> NaN \<Longrightarrow> b \<noteq> NaN \<Longrightarrow> below a b \<or> a = b \<or> below b a"
  by (cases a; cases b) auto

text \<open>
  C7. \<open>inRange min max\<close> holds of a value exactly when \<open>min <= value\<close> and
  \<open>value < max\<close>, with JavaScript's comparisons; and when \<open>min >= max\<close> it holds of no
  value.
\<close>

theorem inRange_spec:
  "inRange min' max' v = (js_le min' v \<and> js_lt v max') \<and>
   (js_ge min' max' \<longrightarrow> \<not> inRange min' max' v)"
proof -
  have eq: "inRange min' max' v = (js_le min' v \<and> js_lt v max')"
    by (auto simp: inRange_def js_ge_def js_le_def js_lt_def)
  have deg: "\<not> inRange min' max' v" if ge: "js_ge min' max'"
  proof
    assume "inRange min' max' v"
    then have "\<not> below v min'" and "below v max'" and "v \<noteq> NaN"
      by (simp_all add: inRange_def js_ge_def js_lt_def)
    moreover from ge have "\<not> below min' max'" and "min' \<noteq> NaN" and "max' \<noteq> NaN"
      by (simp_all add: js_ge_def)
    ultimately show False
      using below_total[of max' min'] below_trans[of v max' min'] by auto
  qed
  from eq deg show ?thesis by blast
qed

theorem inRange_spec_witness:
  "inRange (Finite 0) (Finite 10) (Finite 0) \<and>
   \<not> inRange (Finite 0) (Finite 10) (Finite 10) \<and>
   \<not> inRange (Finite 0) (Finite 10) (Finite (- 1)) \<and>
   js_ge (Finite 7) (Finite 3) \<and> \<not> inRange (Finite 7) (Finite 3) (Finite 5)"
  using inRange_spec[of "Finite 0" "Finite 10" "Finite 0"]
    inRange_spec[of "Finite 0" "Finite 10" "Finite 10"]
    inRange_spec[of "Finite 0" "Finite 10" "Finite (- 1)"]
    inRange_spec[of "Finite 7" "Finite 3" "Finite 5"]
  by (simp add: js_ge_def js_le_def js_lt_def)

subsection \<open>formatArray\<close>

lemma join_concat: "sep = [] \<Longrightarrow> join sep xs = concat xs"
  by (induction sep xs rule: join.induct) simp_all

lemma join_empty_sep: "join [] xs = concat xs"
  by (simp add: join_concat)

text \<open>
  C8. \<open>formatArray items formatter prefix\<close> is the concatenation, over the items in
  their order, of the prefix followed by \<open>formatter item\<close> (the default prefix when none
  is given); on no items it is the empty string.
\<close>

theorem formatArray_spec:
  "formatArray items formatter (Some prefix) = concat (map (\<lambda>item. prefix @ formatter item) items) \<and>
   formatArray items formatter None = concat (map (\<lambda>item. default_prefix @ formatter item) items) \<and>
   formatArray [] formatter p = []"
  by (simp add: formatArray_def join_empty_sep)

subsection \<open>Plain objects\<close>

lemma map_of_replace_other:
  "k' \<noteq> k \<Longrightarrow> map_of (map (\<lambda>p. if fst p = k then (k, v) else p) ps) k' = map_of ps k'"
  by (induction ps) auto

lemma map_of_replace_same:
  "map_of ps k \<noteq> None \<Longrightarrow> map_of (map (\<lambda>p. if fst p = k then (k, v) else p) ps) k = Some v"
  by (induction ps) auto

lemma map_of_insert_index:
  "map_of ps k = None \<Longrightarrow> map_of (insert_index i (k, v) ps) = (map_of ps)(k \<mapsto> v)"
  by (induction ps) (auto split: option.splits if_splits)

lemma map_of_define_own: "map_of (define_own k v ps) = (map_of ps)(k \<mapsto> v)"
proof (cases "map_of ps k")
  case None
  then have "map_of (ps @ [(k, v)]) = (map_of ps)(k \<mapsto> v)"
    by (auto simp: map_add_def fun_eq_iff split: option.splits)
  with None show ?thesis
    by (simp add: define_own_def map_of_insert_index split: option.splits)
next
  case (Some w)
  then show ?thesis
    by (auto simp: define_own_def map_of_replace_other map_of_replace_same)
qed

lemma set_insert_index: "set (insert_index i e ps) = insert e (set ps)"
  by (induction ps) (auto split: option.splits)

lemma keys_define_own: "fst ` set (define_own k v ps) = insert k (fst ` set ps)"
  using map_of_define_own[of k v ps] by (metis dom_map_of_conv_image_fst dom_fun_upd option.simps(3))




lemma map_of_fromEntries_acc:
  "map_of (foldl (\<lambda>ps (k, v). define_own k v ps) acc es) = map_of acc ++ map_of (rev es)"
proof (induction es arbitrary: acc)
  case Nil
  show ?case by simp
next
  case (Cons e es)
  obtain k v where e: "e = (k, v)" by (cases e)
  have "map_of (foldl (\<lambda>ps (k, v). define_own k v ps) acc (e # es))
      = map_of (define_own k v acc) ++ map_of (rev es)"
    using Cons.IH[of "define_own k v acc"] e by simp
  also have "\<dots> = map_of acc ++ map_of (rev (e # es))"
    by (auto simp: map_of_define_own e map_add_def fun_eq_iff split: option.splits)
  finally show ?case .
qed

lemma keys_fromEntries_acc:
  "fst ` set (foldl (\<lambda>ps (k, v). define_own k v ps) acc es) = fst ` set acc \<union> fst ` set es"
proof (induction es arbitrary: acc)
  case Nil
  show ?case by simp
next
  case (Cons e es)
  obtain k v where e: "e = (k, v)" by (cases e)
  have "fst ` set (foldl (\<lambda>ps (k, v). define_own k v ps) acc (e # es))
      = fst ` set (define_own k v acc) \<union> fst ` set es"
    using Cons.IH[of "define_own k v acc"] e by simp
  also have "\<dots> = insert k (fst ` set acc) \<union> fst ` set es"
    by (simp only: keys_define_own)
  also have "\<dots> = fst ` set acc \<union> fst ` set (e # es)"
    using e by auto
  finally show ?case .
qed


lemma map_of_rev_distinct:
  "distinct (map fst es) \<Longrightarrow> map_of (rev es) = map_of es"
  by (rule map_of_inject_set[THEN iffD2]) (simp_all flip: rev_map)

lemma map_of_map_values:
  "map_of ps k = Some v \<Longrightarrow> map_of (map (\<lambda>(k, v). (k, g v k)) ps) k = Some (g v k)"
  by (induction ps) (auto split: if_splits)

lemma values_define_own: "snd ` set (define_own k v ps) \<subseteq> insert v (snd ` set ps)"
  by (auto simp: define_own_def set_insert_index split: option.splits if_splits)

lemma values_fromEntries_acc:
  "snd ` set (foldl (\<lambda>ps (k, v). define_own k v ps) acc es) \<subseteq> snd ` set acc \<union> snd ` set es"
proof (induction es arbitrary: acc)
  case Nil
  show ?case by simp
next
  case (Cons e es)
  obtain k v where e: "e = (k, v)" by (cases e)
  have "snd ` set (foldl (\<lambda>ps (k, v). define_own k v ps) acc (e # es))
      \<subseteq> snd ` set (define_own k v acc) \<union> snd ` set es"
    using Cons.IH[of "define_own k v acc"] e by simp
  also have "\<dots> \<subseteq> insert v (snd ` set acc) \<union> snd ` set es"
    using values_define_own[of k v acc] by blast
  also have "\<dots> = snd ` set acc \<union> snd ` set (e # es)"
    using e by auto
  finally show ?case .
qed

lemma values_fromEntries: "snd ` set (own (fromEntries kvs)) \<subseteq> snd ` set kvs"
  using values_fromEntries_acc[of "[]" kvs] by (simp add: fromEntries_def)

subsection \<open>mapObject\<close>



lemma mapObject_wrap:
  "mapObject [ObjCell [(''a'', Num (Finite 1)), (''b'', Num (Finite 2))]] 0 wrap
     = (Inr (Ref 3), [ObjCell [(''a'', Num (Finite 1)), (''b'', Num (Finite 2))],
                      ArrCell [Num (Finite 1)], ArrCell [Num (Finite 2)],
                      ObjCell [(''a'', Ref 1), (''b'', Ref 2)]])"
  by (simp add: mapObject_def cell_entries_def wrap_def define_own_def fromEntries_def array_index_def
      is_digit_def)




text \<open>
  Nor does \<open>mapObject\<close> return for every callback: an exception of the callback passes
  through.
\<close>

lemma mapObject_callback_throws:
  "mapObject [ObjCell [(''a'', Num (Finite 1))]] 0 fail
     = (Inl CallbackError, [ObjCell [(''a'', Num (Finite 1))]])"
  by (simp add: mapObject_def cell_entries_def fail_def)

text \<open>
  \<open>mapObject\<close> itself assigns to nothing: with a callback that only allocates, whatever
  it returns or throws, every cell of the store is after the call what it was before,
  and the new cells follow.
\<close>

lemma map_entries_allocates:
  "allocates_only func \<Longrightarrow> \<exists>cells. snd (map_entries func obj h es) = h @ cells"
proof (induction es arbitrary: h)
  case Nil
  then show ?case by simp
next
  case (Cons e es)
  obtain r h1 where call: "func h (snd e) (fst e) obj = (r, h1)"
    by (cases "func h (snd e) (fst e) obj")
  with Cons.prems obtain c1 where h1: "h1 = h @ c1"
    unfolding allocates_only_def by (metis snd_conv)
  show ?case
  proof (cases r)
    case (Inl err)
    with call h1 show ?thesis by simp
  next
    case (Inr w)
    from Cons.IH[OF Cons.prems, of h1] obtain c2 where
      "snd (map_entries func obj h1 es) = h1 @ c2" by blast
    with call h1 Inr show ?thesis
      by (cases "map_entries func obj h1 es") (auto split: sum.splits)
  qed
qed

lemma mapObject_allocates:
  assumes "allocates_only func"
  shows "\<exists>cells. snd (mapObject h obj func) = h @ cells"
proof (cases "obj < length h")
  case False
  then show ?thesis by (simp add: mapObject_def)
next
  case True
  from map_entries_allocates[OF assms, of "Ref obj" h "cell_entries (h ! obj)"]
  obtain cells where "snd (map_entries func (Ref obj) h (cell_entries (h ! obj))) = h @ cells"
    by blast
  with True show ?thesis
    by (cases "map_entries func (Ref obj) h (cell_entries (h ! obj))")
       (auto simp: mapObject_def split: sum.splits)
qed

text \<open>
  For a callback that is a function of the value and the key and touches no object, the
  result is the object with the keys of \<open>obj\<close> and that function's value at each key, and
  the store is the one before the call with the new object added.
\<close>

lemma map_entries_pure:
  assumes "\<And>h v k. func h v k obj = (Inr (g v k), h)"
  shows "map_entries func obj h es = (Inr (map (\<lambda>(k, v). (k, g v k)) es), h)"
  by (induction es) (simp_all add: assms case_prod_beta)

lemma mapObject_pure:
  assumes "obj < length h"
    and "h ! obj = ObjCell ps"
    and "distinct (map fst ps)"
    and pure: "\<And>h v k. func h v k (Ref obj) = (Inr (g v k), h)"
  shows "\<exists>qs. mapObject h obj func = (Inr (Ref (length h)), h @ [ObjCell qs]) \<and>
              fst ` set qs = fst ` set ps \<and>
              (\<forall>k v. map_of ps k = Some v \<longrightarrow> map_of qs k = Some (g v k))"
proof -
  let ?es = "map (\<lambda>(k, v). (k, g v k)) ps"
  let ?qs = "own (fromEntries ?es)"
  have fst_es: "map fst ?es = map fst ps" by (simp add: case_prod_beta comp_def)
  have qs: "?qs = foldl (\<lambda>ps (k, v). define_own k v ps) [] ?es" by (simp add: fromEntries_def)
  have res: "mapObject h obj func = (Inr (Ref (length h)), h @ [ObjCell ?qs])"
    using assms(1,2) map_entries_pure[of func "Ref obj" g h ps, OF pure]
    by (simp add: mapObject_def cell_entries_def)
  have "set (map fst ?es) = set (map fst ps)" by (simp only: fst_es)
  then have keys_es: "fst ` set ?es = fst ` set ps" by (simp only: set_map)
  have keys: "fst ` set ?qs = fst ` set ps" unfolding qs keys_fromEntries_acc keys_es by simp
  have "distinct (map fst ?es)" using assms(3) by (simp only: fst_es)
  then have "map_of (rev ?es) = map_of ?es" by (rule map_of_rev_distinct)
  then have "map_of ?qs = map_of ?es" unfolding qs map_of_fromEntries_acc by simp
  moreover have "map_of ?es k = Some (g v k)" if "map_of ps k = Some v" for k v
    using that by (rule map_of_map_values)
  ultimately show ?thesis using res keys by auto
qed

text \<open>The example of the specification: \<^verbatim>\<open>mapObject({a: 1, b: 2}, v => v + 1)\<close>.\<close>

lemma mapObject_example:
  "mapObject [ObjCell [(''a'', Num (Finite 1)), (''b'', Num (Finite 2))]] 0 plus_one
     = (Inr (Ref 1), [ObjCell [(''a'', Num (Finite 1)), (''b'', Num (Finite 2))],
                      ObjCell [(''a'', Num (Finite 2)), (''b'', Num (Finite 3))]])"
  by (simp add: mapObject_def cell_entries_def plus_one_def define_own_def fromEntries_def
      array_index_def is_digit_def)

subsection \<open>getParameterMap\<close>

lemma getParameterMap_kept:
  "getParameterMap operation t = assign_all empty_object (kept operation t)"
proof -
  have "foldl (\<lambda>result parameter.
              case parameter of
                Parameter p \<Rightarrow>
                  if in' p \<noteq> None \<and> in' p = Some (type_string t)
                  then assign (\<lambda>_. True) result (name p) p
                  else result
              | Reference r \<Rightarrow> result) obj items
      = assign_all obj (concat (map (\<lambda>item. case item of
                      Parameter p \<Rightarrow> if in' p = Some (type_string t) then [p] else []
                    | Reference r \<Rightarrow> []) items))" for obj items
    by (induction items arbitrary: obj) (auto simp: assign_all_def split: parameter_item.splits)
  then show ?thesis by (simp add: getParameterMap_def kept_def)
qed

lemma assign_own_proto_key:
  "map_of (own obj) ''__proto__'' = None \<Longrightarrow>
   map_of (own (assign (\<lambda>_. True) obj k v)) ''__proto__'' = None"
  by (simp add: assign_def map_of_define_own)

lemma assign_all_snoc: "assign_all obj (ps @ [p]) = assign (\<lambda>_. True) (assign_all obj ps) (name p) p"
  by (simp add: assign_all_def)

lemma assign_all_no_proto_key:
  "map_of (own obj) ''__proto__'' = None \<Longrightarrow> map_of (own (assign_all obj ps)) ''__proto__'' = None"
  by (induction ps rule: rev_induct) (simp_all add: assign_all_snoc assign_own_proto_key, simp add: assign_all_def)

lemma assign_all_lookup:
  assumes "map_of (own obj) ''__proto__'' = None" and "k \<noteq> ''__proto__''"
  shows "map_of (own (assign_all obj ps)) k =
     (case last_named k ps of None \<Rightarrow> map_of (own obj) k | Some q \<Rightarrow> Some q)"
proof (induction ps rule: rev_induct)
  case Nil
  show ?case by (simp add: assign_all_def last_named_def)
next
  case (snoc p ps)
  show ?case
  proof (cases "name p = k")
    case True
    then show ?thesis using assms(2)
      by (simp add: assign_all_snoc assign_def map_of_define_own last_named_def)
  next
    case False
    then show ?thesis using snoc
      by (simp add: assign_all_snoc assign_def map_of_define_own last_named_def)
  qed
qed

lemma assign_all_proto:
  "proto (assign_all obj ps) =
     (case last_named ''__proto__'' ps of None \<Rightarrow> proto obj | Some q \<Rightarrow> Some q)"
  if "map_of (own obj) ''__proto__'' = None"
proof (induction ps rule: rev_induct)
  case Nil
  show ?case by (simp add: assign_all_def last_named_def)
next
  case (snoc p ps)
  have "map_of (own (assign_all obj ps)) ''__proto__'' = None"
    using that by (rule assign_all_no_proto_key)
  then show ?case using snoc
    by (simp add: assign_all_snoc assign_def last_named_def)
qed

lemma getParameterMap_lookup:
  "k \<noteq> ''__proto__'' \<Longrightarrow>
   map_of (own (getParameterMap operation t)) k = last_named k (kept operation t)"
  by (simp add: getParameterMap_kept assign_all_lookup empty_object_def split: option.splits)

lemma getParameterMap_proto:
  "map_of (own (getParameterMap operation t)) ''__proto__'' = None \<and>
   proto (getParameterMap operation t) = last_named ''__proto__'' (kept operation t)"
  by (simp add: getParameterMap_kept assign_all_no_proto_key assign_all_proto empty_object_def
      split: option.splits)

lemma last_named_None_iff: "last_named k ps = None \<longleftrightarrow> k \<notin> name ` set ps"
  by (auto simp: last_named_def Let_def filter_empty_conv)

lemma getParameterMap_keys:
  "fst ` set (own (getParameterMap operation t)) = name ` set (kept operation t) - {''__proto__''}"
proof -
  have "dom (map_of (own (getParameterMap operation t)))
      = name ` set (kept operation t) - {''__proto__''}"
  proof (rule set_eqI)
    fix k
    show "k \<in> dom (map_of (own (getParameterMap operation t)))
        \<longleftrightarrow> k \<in> name ` set (kept operation t) - {''__proto__''}"
    proof (cases "k = ''__proto__''")
      case True
      then show ?thesis using getParameterMap_proto[of operation t] by (simp add: domIff)
    next
      case False
      then show ?thesis
        using getParameterMap_lookup[OF False, of operation t] last_named_None_iff[of k "kept operation t"]
        by (simp add: domIff)
    qed
  qed
  then show ?thesis by (simp add: dom_map_of_conv_image_fst)
qed

text \<open>
  The example of the specification: of two query parameters named \<^verbatim>\<open>"id"\<close> the map has one
  entry, the later one; the header parameter and the reference are left out.
\<close>

lemma getParameterMap_duplicate_names:
  "entries (getParameterMap
      \<lparr>parameters = Some
         [Parameter \<lparr>name = ''id'', in' = Some ''query'', required = Some True, schema = None\<rparr>,
          Parameter \<lparr>name = ''token'', in' = Some ''header'', required = None, schema = None\<rparr>,
          Reference \<lparr>ref = ''#/components/parameters/page''\<rparr>,
          Parameter \<lparr>name = ''id'', in' = Some ''query'', required = Some False, schema = None\<rparr>]\<rparr>
      Query)
   = [(''id'', \<lparr>name = ''id'', in' = Some ''query'', required = Some False, schema = None\<rparr>)]"
  by (simp add: getParameterMap_def entries_def assign_def empty_object_def define_own_def
      array_index_def is_digit_def)

text \<open>
  C3. For every key but \<^verbatim>\<open>"__proto__"\<close> the map holds what the claim says
  (\<open>getParameterMap_lookup\<close>): the last kept parameter of that name, and nothing when no
  kept parameter has it. A kept parameter named \<^verbatim>\<open>"__proto__"\<close> is not in the map: the
  assignment \<^verbatim>\<open>result[parameter.name] = parameter\<close> replaces the prototype of \<open>result\<close>
  and creates no property. On the operation whose only parameter is a query parameter
  of that name, the returned object has no entry, and the parameter is its prototype.
\<close>

theorem getParameterMap_proto_name:
  "entries (getParameterMap
      \<lparr>parameters = Some [Parameter \<lparr>name = ''__proto__'', in' = Some ''query'',
                                     required = None, schema = None\<rparr>]\<rparr> Query) = [] \<and>
   proto (getParameterMap
      \<lparr>parameters = Some [Parameter \<lparr>name = ''__proto__'', in' = Some ''query'',
                                     required = None, schema = None\<rparr>]\<rparr> Query)
     = Some \<lparr>name = ''__proto__'', in' = Some ''query'', required = None, schema = None\<rparr>"
  by (simp add: getParameterMap_def entries_def assign_def empty_object_def)

subsection \<open>getParametersSchema\<close>

lemma add_parameter_fold:
  "foldl add_parameter (req, props) es =
     (req @ map fst (filter (\<lambda>e. is_required (snd e)) es),
      foldl (\<lambda>obj e. assign object_or_null obj (fst e) (declared_schema (snd e))) props es)"
proof (induction es arbitrary: req props)
  case Nil
  show ?case by simp
next
  case (Cons e es)
  obtain k p where e: "e = (k, p)" by (cases e)
  have step: "add_parameter (req, props) (k, p) =
      (if is_required p then req @ [k] else req, assign object_or_null props k (declared_schema p))"
    by (cases "ParameterObject.required p")
       (auto simp: add_parameter_def is_required_def declared_schema_def Let_def)
  show ?case
    using Cons.IH[of "if is_required p then req @ [k] else req"
        "assign object_or_null props k (declared_schema p)"]
    by (simp add: e step)
qed

lemma getParametersSchema_eq:
  "getParametersSchema ps =
     \<lparr>type = Some ''object'',
      required = Some (map fst (filter (\<lambda>e. is_required (snd e)) (own ps))),
      properties = Some (foldl (\<lambda>obj e. assign object_or_null obj (fst e) (declared_schema (snd e)))
                           empty_object (own ps)),
      additionalProperties = Some True\<rparr>"
  by (simp add: getParametersSchema_def add_parameter_fold entries_def)

lemma assign_plain_fold:
  assumes "''__proto__'' \<notin> fst ` set es"
  shows "foldl (\<lambda>obj e. assign settable obj (fst e) (g (snd e))) obj es =
     obj\<lparr>own := foldl (\<lambda>ps (k, v). define_own k v ps) (own obj) (map (\<lambda>(k, p). (k, g p)) es)\<rparr>"
  using assms
proof (induction es arbitrary: obj)
  case Nil
  show ?case by simp
next
  case (Cons e es)
  obtain k p where e: "e = (k, p)" by (cases e)
  from Cons.prems e have k: "k \<noteq> ''__proto__''" and rest: "''__proto__'' \<notin> fst ` set es"
    by auto
  show ?case
    using Cons.IH[OF rest, of "assign settable obj k (g p)"] k
    by (simp add: e assign_def)
qed

lemma getParametersSchema_properties:
  assumes "''__proto__'' \<notin> fst ` set (own ps)" and "distinct (map fst (own ps))"
  shows "\<exists>props. properties (getParametersSchema ps) = Some props \<and> proto props = None \<and>
           fst ` set (own props) = fst ` set (own ps) \<and>
           (\<forall>k p. map_of (own ps) k = Some p \<longrightarrow> map_of (own props) k = Some (declared_schema p))"
proof -
  let ?es = "map (\<lambda>(k, p). (k, declared_schema p)) (own ps)"
  let ?props = "empty_object\<lparr>own := foldl (\<lambda>ps (k, v). define_own k v ps) [] ?es\<rparr> :: json js_object"
  have fst_es: "map fst ?es = map fst (own ps)" by (simp add: case_prod_beta comp_def)
  have props: "properties (getParametersSchema ps) = Some ?props"
    using assign_plain_fold[OF assms(1), of object_or_null declared_schema empty_object]
    by (simp add: getParametersSchema_eq empty_object_def)
  have keys_es: "fst ` set ?es = fst ` set (own ps)"
    by (simp add: image_image case_prod_beta)
  have own_props: "own ?props = foldl (\<lambda>ps (k, v). define_own k v ps) [] ?es"
    by simp
  have keys: "fst ` set (own ?props) = fst ` set (own ps)"
    unfolding own_props keys_fromEntries_acc keys_es by simp
  have "distinct (map fst ?es)" using assms(2) by (simp only: fst_es)
  then have "map_of (rev ?es) = map_of ?es" by (rule map_of_rev_distinct)
  then have look: "map_of (own ?props) = map_of ?es"
    unfolding own_props map_of_fromEntries_acc by simp
  have "map_of ?es k = Some (declared_schema p)" if "map_of (own ps) k = Some p" for k p
    using map_of_map_values[OF that, of "\<lambda>p k. declared_schema p"] by simp
  with props keys look show ?thesis by (simp add: empty_object_def)
qed

lemma getParametersSchema_required:
  "SchemaObject.required (getParametersSchema ps) = Some (map fst (filter (\<lambda>e. is_required (snd e)) (own ps)))"
  by (simp add: getParametersSchema_eq)

text \<open>
  The example of the specification:
  \<^verbatim>\<open>{id: {required: true, schema: {type: 'string'}}, age: {required: false, schema: {type: 'integer'}}}\<close>.
\<close>

lemma getParametersSchema_example:
  "getParametersSchema
     \<lparr>own = [(''id'', \<lparr>name = ''id'', in' = Some ''query'', required = Some True,
                         schema = Some (JObj [(''type'', JStr ''string'')])\<rparr>),
             (''age'', \<lparr>name = ''age'', in' = Some ''query'', required = Some False,
                          schema = Some (JObj [(''type'', JStr ''integer'')])\<rparr>)],
      proto = None\<rparr>
   = \<lparr>type = Some ''object'', required = Some [''id''],
      properties = Some \<lparr>own = [(''id'', JObj [(''type'', JStr ''string'')]),
                                  (''age'', JObj [(''type'', JStr ''integer'')])],
                           proto = None\<rparr>,
      additionalProperties = Some True\<rparr>"
  by (simp add: getParametersSchema_eq is_required_def declared_schema_def assign_def
      empty_object_def define_own_def array_index_def is_digit_def)

text \<open>
  C4. \<open>type\<close>, \<open>additionalProperties\<close> and \<open>required\<close> are as the claim says for every
  parameter map (\<open>getParametersSchema_eq\<close>), and so is \<open>properties\<close> for a map that has
  no own key \<^verbatim>\<open>"__proto__"\<close> (\<open>getParametersSchema_properties\<close>). For an entry with that
  key, \<^verbatim>\<open>result.properties[name] = schema\<close> replaces the prototype of
  \<open>result.properties\<close> and creates no property: on the map with the single required
  entry \<^verbatim>\<open>"__proto__"\<close>, \<open>required\<close> lists the name and \<open>properties\<close> has no entry for it.
\<close>

theorem getParametersSchema_proto_name:
  "getParametersSchema
     \<lparr>own = [(''__proto__'', \<lparr>name = ''__proto__'', in' = Some ''query'', required = Some True,
                               schema = Some (JObj [(''type'', JStr ''string'')])\<rparr>)],
      proto = None\<rparr>
   = \<lparr>type = Some ''object'', required = Some [''__proto__''],
      properties = Some \<lparr>own = [], proto = Some (JObj [(''type'', JStr ''string'')])\<rparr>,
      additionalProperties = Some True\<rparr>"
  by (simp add: getParametersSchema_eq is_required_def declared_schema_def assign_def empty_object_def)

text \<open>
  C10. Whatever the parameter map, the returned schema has all four fields set: \<open>type\<close>
  is \<^verbatim>\<open>'object'\<close>, \<open>additionalProperties\<close> is \<^verbatim>\<open>true\<close>, \<open>required\<close> is a list and
  \<open>properties\<close> an object, both possibly empty; on the empty map the result is exactly
  \<^verbatim>\<open>{type: 'object', required: [], properties: {}, additionalProperties: true}\<close>.
\<close>

theorem getParametersSchema_all_keys:
  "type (getParametersSchema ps) = Some ''object'' \<and>
   additionalProperties (getParametersSchema ps) = Some True \<and>
   (\<exists>names. SchemaObject.required (getParametersSchema ps) = Some names) \<and>
   (\<exists>props. properties (getParametersSchema ps) = Some props) \<and>
   getParametersSchema empty_object =
     \<lparr>type = Some ''object'', required = Some [], properties = Some empty_object,
      additionalProperties = Some True\<rparr>"
  by (simp add: getParametersSchema_eq) (simp add: empty_object_def)

subsection \<open>matchSchema\<close>

lemma refs_within_mono:
  "refs_within lo hi v \<Longrightarrow> lo' \<le> lo \<Longrightarrow> hi \<le> hi' \<Longrightarrow> refs_within lo' hi' v"
  by (auto simp: refs_within_def split: jsval.splits)

lemma cells_within_mono:
  "cells_within lo hi cs \<Longrightarrow> lo' \<le> lo \<Longrightarrow> hi \<le> hi' \<Longrightarrow> cells_within lo' hi' cs"
  unfolding cells_within_def using refs_within_mono by blast

lemma cells_within_append:
  "cells_within lo hi (cs @ ds) \<longleftrightarrow> cells_within lo hi cs \<and> cells_within lo hi ds"
  by (auto simp: cells_within_def)

lemma JSON_parse_allocates:
  "JSON_parse_value h j = (v, h') \<Longrightarrow>
     \<exists>new. h' = h @ new \<and> refs_within (length h) (length h') v
           \<and> cells_within (length h) (length h') new"
  "JSON_parse_props h ms = (kvs, h') \<Longrightarrow>
     \<exists>new. h' = h @ new \<and> (\<forall>x \<in> snd ` set kvs. refs_within (length h) (length h') x)
           \<and> cells_within (length h) (length h') new"
  "JSON_parse_elems h js = (vs, h') \<Longrightarrow>
     \<exists>new. h' = h @ new \<and> (\<forall>x \<in> set vs. refs_within (length h) (length h') x)
           \<and> cells_within (length h) (length h') new"
proof (induction h j and h ms and h js arbitrary: v h' and kvs h' and vs h'
    rule: JSON_parse_value_JSON_parse_props_JSON_parse_elems.induct)
  case (5 h js)
  obtain vs h1 where el: "JSON_parse_elems h js = (vs, h1)" by (cases "JSON_parse_elems h js")
  from "5.IH"[OF el] obtain new where new: "h1 = h @ new"
      "\<forall>x \<in> set vs. refs_within (length h) (length h1) x" "cells_within (length h) (length h1) new"
    by blast
  from "5.prems" el have v: "v = Ref (length h1)" and h': "h' = h1 @ [ArrCell vs]" by simp_all
  have mono: "refs_within (length h) (length h') x" if "refs_within (length h) (length h1) x" for x
    using that h' by (auto intro: refs_within_mono)
  have "cells_within (length h) (length h') (new @ [ArrCell vs])"
    using new(2,3) mono by (auto simp: cells_within_def)
  moreover have "refs_within (length h) (length h') v"
    using v h' new(1) by (simp add: refs_within_def)
  ultimately show ?case using new(1) h' by simp
next
  case (6 h ms)
  obtain kvs h1 where el: "JSON_parse_props h ms = (kvs, h1)" by (cases "JSON_parse_props h ms")
  from "6.IH"[OF el] obtain new where new: "h1 = h @ new"
      "\<forall>x \<in> snd ` set kvs. refs_within (length h) (length h1) x" "cells_within (length h) (length h1) new"
    by blast
  from "6.prems" el have v: "v = Ref (length h1)" and h': "h' = h1 @ [ObjCell (own (fromEntries kvs))]"
    by simp_all
  have "\<forall>x \<in> snd ` set (own (fromEntries kvs)). refs_within (length h) (length h1) x"
    using new(2) values_fromEntries[of kvs] by blast
  moreover have mono: "refs_within (length h) (length h') x" if "refs_within (length h) (length h1) x" for x
    using that h' by (auto intro: refs_within_mono)
  ultimately have "cells_within (length h) (length h') (new @ [ObjCell (own (fromEntries kvs))])"
    using new(3) by (auto simp: cells_within_def)
  moreover have "refs_within (length h) (length h') v"
    using v h' new(1) by (simp add: refs_within_def)
  ultimately show ?case using new(1) h' by simp
next
  case (8 h m ms)
  obtain v h1 where hd: "JSON_parse_value h (snd m) = (v, h1)" by (cases "JSON_parse_value h (snd m)")
  obtain kvs' h2 where tl: "JSON_parse_props h1 ms = (kvs', h2)" by (cases "JSON_parse_props h1 ms")
  from "8.IH"(1)[OF hd] obtain new1 where n1: "h1 = h @ new1"
      "refs_within (length h) (length h1) v" "cells_within (length h) (length h1) new1"
    by blast
  from "8.IH"(2)[OF hd[symmetric] tl] obtain new2 where n2: "h2 = h1 @ new2"
      "\<forall>x \<in> snd ` set kvs'. refs_within (length h1) (length h2) x" "cells_within (length h1) (length h2) new2"
    by blast
  from "8.prems" hd tl have kvs: "kvs = (fst m, v) # kvs'" and h': "h' = h2" by simp_all
  have le: "length h \<le> length h1" "length h1 \<le> length h2" using n1(1) n2(1) by simp_all
  have "\<forall>x \<in> snd ` set kvs. refs_within (length h) (length h') x"
    using n1(2) n2(2) kvs h' le by (auto intro: refs_within_mono)
  moreover have "cells_within (length h) (length h') (new1 @ new2)"
    using n1(3) n2(3) h' le by (auto simp: cells_within_append intro: cells_within_mono)
  ultimately show ?case using n1(1) n2(1) h' by simp
next
  case (10 h j js)
  obtain v h1 where hd: "JSON_parse_value h j = (v, h1)" by (cases "JSON_parse_value h j")
  obtain vs' h2 where tl: "JSON_parse_elems h1 js = (vs', h2)" by (cases "JSON_parse_elems h1 js")
  from "10.IH"(1)[OF hd] obtain new1 where n1: "h1 = h @ new1"
      "refs_within (length h) (length h1) v" "cells_within (length h) (length h1) new1"
    by blast
  from "10.IH"(2)[OF hd[symmetric] tl] obtain new2 where n2: "h2 = h1 @ new2"
      "\<forall>x \<in> set vs'. refs_within (length h1) (length h2) x" "cells_within (length h1) (length h2) new2"
    by blast
  from "10.prems" hd tl have vs: "vs = v # vs'" and h': "h' = h2" by simp_all
  have le: "length h \<le> length h1" "length h1 \<le> length h2" using n1(1) n2(1) by simp_all
  have "\<forall>x \<in> set vs. refs_within (length h) (length h') x"
    using n1(2) n2(2) vs h' le by (auto intro: refs_within_mono)
  moreover have "cells_within (length h) (length h') (new1 @ new2)"
    using n1(3) n2(3) h' le by (auto simp: cells_within_append intro: cells_within_mono)
  ultimately show ?case using n1(1) n2(1) h' by simp
qed (auto simp: refs_within_def cells_within_def)

lemma reach_fresh:
  assumes "refs_within (length h) (length (h @ new)) v"
    and "cells_within (length h) (length (h @ new)) new"
    and "a \<in> reach (h @ new) v"
  shows "length h \<le> a \<and> a < length (h @ new)"
  using assms(3)
proof (induction rule: reach.induct)
  case (root a)
  with assms(1) show ?case by (simp add: refs_within_def)
next
  case (step a b)
  then have "(h @ new) ! a = new ! (a - length h)" and "a - length h < length new"
    by (auto simp: nth_append)
  then have "(h @ new) ! a \<in> set new" by simp
  with assms(2) step.hyps(3) have "refs_within (length h) (length (h @ new)) (Ref b)"
    unfolding cells_within_def by blast
  then show ?case by (simp add: refs_within_def)
qed

lemma cloneObject_allocates:
  assumes "cloneObject h source = (r, h1)"
  shows "\<exists>new. h1 = h @ new \<and> (\<forall>v a. r = Inr v \<and> a \<in> reach h1 v \<longrightarrow> length h \<le> a)"
proof (cases "JSON_stringify h source")
  case (Inl e)
  with assms show ?thesis by (auto simp: cloneObject_def)
next
  case (Inr serialized)
  show ?thesis
  proof (cases serialized)
    case None
    with Inr assms show ?thesis by (auto simp: cloneObject_def JSON_parse_def)
  next
    case (Some j)
    obtain v h' where p: "JSON_parse_value h j = (v, h')" by (cases "JSON_parse_value h j")
    from JSON_parse_allocates(1)[OF p] obtain new where new: "h' = h @ new"
        "refs_within (length h) (length h') v" "cells_within (length h) (length h') new"
      by blast
    from assms Inr Some p have r: "r = Inr v" and h1: "h1 = h'"
      by (simp_all add: cloneObject_def JSON_parse_def)
    have "length h \<le> a" if "a \<in> reach h1 v" for a
      using reach_fresh[of h new v a] new that h1 by simp
    with r h1 new(1) show ?thesis by auto
  qed
qed

lemma clone_validate_frame:
  assumes clone: "cloneObject h source = (Inr result, h1)"
    and frame: "frame_ok validate"
    and val: "validate h1 result = (outcome, h2)"
  shows "length h \<le> length h2 \<and> (\<forall>a. a < length h \<longrightarrow> h2 ! a = h ! a)"
proof -
  from cloneObject_allocates[OF clone] obtain new where new: "h1 = h @ new"
      and fresh: "\<And>a. a \<in> reach h1 result \<Longrightarrow> length h \<le> a"
    by blast
  have "length h1 \<le> length h2" using frame val unfolding frame_ok_def by (metis snd_conv)
  then have len: "length h \<le> length h2" using new by simp
  have "h2 ! a = h ! a" if a: "a < length h" for a
  proof -
    have "a \<notin> reach h1 result" using fresh[of a] a by auto
    moreover have "a < length h1" using a new by simp
    ultimately have "h2 ! a = h1 ! a" using frame val unfolding frame_ok_def by (metis snd_conv)
    then show ?thesis using a new by (simp add: nth_append)
  qed
  with len show ?thesis by simp
qed

lemma push_frame:
  "push m h errors items = Inr h' \<Longrightarrow> length h' = length h \<and> (\<forall>a. a \<noteq> errors \<longrightarrow> h' ! a = h ! a)"
  by (auto simp: push_def split: if_splits cell.splits)

lemma matchSchema_frame:
  assumes ok: "engine_ok eng"
    and run: "matchSchema m eng h source s errors ajvOptions = (r, h')"
  shows "length h \<le> length h' \<and> (\<forall>a. a < length h \<and> a \<noteq> errors \<longrightarrow> h' ! a = h ! a)"
proof -
  obtain r1 h1 where c: "cloneObject h source = (r1, h1)" by (cases "cloneObject h source")
  from cloneObject_allocates[OF c] obtain cells where "h1 = h @ cells" by blast
  then have h1: "length h \<le> length h1" "\<And>a. a < length h \<Longrightarrow> h1 ! a = h ! a"
    by (simp_all add: nth_append)
  show ?thesis
  proof (cases r1)
    case (Inl e)
    with run c h1 show ?thesis by (simp add: matchSchema_def)
  next
    case (Inr result)
    show ?thesis
    proof (cases "configure eng ajvOptions")
      case (Inl e)
      with run c Inr h1 show ?thesis by (simp add: matchSchema_def)
    next
      case ajv: (Inr ajv)
      show ?thesis
      proof (cases "compile eng ajv s")
        case (Inl e)
        with run c Inr ajv h1 show ?thesis by (simp add: matchSchema_def)
      next
        case validate: (Inr validate)
        with ok have f: "frame_ok validate" unfolding engine_ok_def by blast
        obtain outcome h2 where v: "validate h1 result = (outcome, h2)"
          by (cases "validate h1 result")
        from clone_validate_frame[OF c[unfolded Inr] f v]
        have h2: "length h \<le> length h2" "\<And>a. a < length h \<Longrightarrow> h2 ! a = h ! a" by simp_all
        show ?thesis
        proof (cases outcome)
          case (Inl e)
          with run c \<open>r1 = Inr result\<close> ajv validate v h2 show ?thesis by (simp add: matchSchema_def)
        next
          case reported: (Inr reported)
          show ?thesis
          proof (cases reported)
            case None
            with run c \<open>r1 = Inr result\<close> ajv validate v reported h2 show ?thesis
              by (simp add: matchSchema_def)
          next
            case (Some es)
            show ?thesis
            proof (cases "push m h2 errors es")
              case (Inl e)
              with run c \<open>r1 = Inr result\<close> ajv validate v reported Some h2 show ?thesis
                by (simp add: matchSchema_def)
            next
              case pushed: (Inr h3)
              from push_frame[OF pushed]
              have "length h3 = length h2" "\<And>a. a \<noteq> errors \<Longrightarrow> h3 ! a = h2 ! a" by simp_all
              moreover from run c \<open>r1 = Inr result\<close> ajv validate v reported Some pushed have "h' = h3"
                by (simp add: matchSchema_def)
              ultimately show ?thesis using h2 by simp
            qed
          qed
        qed
      qed
    qed
  qed
qed

lemma reach_unchanged:
  assumes same: "\<And>a. a \<in> reach h v \<Longrightarrow> a < length h \<and> h' ! a = h ! a"
    and le: "length h \<le> length h'"
  shows "reach h' v = reach h v"
proof (rule set_eqI, rule iffI)
  fix a assume "a \<in> reach h' v"
  then show "a \<in> reach h v"
  proof (induction rule: reach.induct)
    case (root a)
    then show ?case by (rule reach.root)
  next
    case (step a b)
    from same[OF step.IH] step.hyps(3) have "a < length h" "Ref b \<in> cell_values (h ! a)" by simp_all
    with step.IH show ?case by (rule reach.step)
  qed
next
  fix a assume "a \<in> reach h v"
  then show "a \<in> reach h' v"
  proof (induction rule: reach.induct)
    case (root a)
    then show ?case by (rule reach.root)
  next
    case (step a b)
    from same[OF step.hyps(1)] step.hyps(3) le have "a < length h'" "Ref b \<in> cell_values (h' ! a)"
      by simp_all
    with step.IH show ?case by (rule reach.step)
  qed
qed

lemma sample_validate_frame: "frame_ok (sample_validate s)"
  unfolding frame_ok_def
proof (intro allI conjI impI)
  fix h v
  show "length h \<le> length (snd (sample_validate s h v))"
    by (auto simp: sample_validate_def split: jsval.splits cell.splits sample_schema.splits option.splits)
next
  fix h v a
  assume a: "a < length h \<and> a \<notin> reach h v"
  have "a \<noteq> b" if "v = Ref b" for b
    using a that reach.root[of v b h] by auto
  with a show "snd (sample_validate s h v) ! a = h ! a"
    by (auto simp: sample_validate_def nth_append
        split: jsval.splits cell.splits sample_schema.splits option.splits)
qed

lemma sample_engine_ok: "engine_ok sample_engine"
  by (auto simp: engine_ok_def sample_engine_def sample_validate_frame)

text \<open>
  What \<open>cloneObject\<close> returns is a deep copy: every cell reachable from it is new
  (\<open>cloneObject_allocates\<close>), so a well-behaved validator called on it changes no cell that
  existed before the call (\<open>clone_validate_frame\<close>), and \<open>matchSchema\<close> changes none but
  the \<open>errors\<close> array (\<open>matchSchema_frame\<close>).
\<close>

text \<open>
  C1 (amended). With a well-behaved engine, and an \<open>errors\<close> array that is not the source
  nor reachable from it, the source is the same before and after \<open>matchSchema\<close>, whatever
  the outcome of the call: every cell reachable from the source holds what it held, and
  the cells reachable from it are the same.
\<close>

theorem matchSchema_source_unchanged:
  assumes "engine_ok eng"
    and "errors \<notin> reach h source"
    and "reach h source \<subseteq> {..<length h}"
    and "matchSchema m eng h source s errors ajvOptions = (r, h')"
  shows "(\<forall>a \<in> reach h source. h' ! a = h ! a) \<and> reach h' source = reach h source"
proof -
  from matchSchema_frame[OF assms(1,4)]
  have frame: "length h \<le> length h'" "\<And>a. a < length h \<Longrightarrow> a \<noteq> errors \<Longrightarrow> h' ! a = h ! a"
    by simp_all
  have same: "a < length h \<and> h' ! a = h ! a" if "a \<in> reach h source" for a
  proof -
    from that assms(3) have "a < length h" by auto
    moreover from that assms(2) have "a \<noteq> errors" by auto
    ultimately show ?thesis using frame(2) by simp
  qed
  then have "reach h' source = reach h source"
    using frame(1) by (rule reach_unchanged)
  with same show ?thesis by simp
qed

lemma matchSchema_sample_coerces:
  "matchSchema sample_limit sample_engine [ArrCell [], ObjCell [(''tags'', Str ''a'')]] (Ref 1)
      (ArrayProperty ''tags'') 0 None
   = (Inr (Ref 2), [ArrCell [], ObjCell [(''tags'', Str ''a'')],
                    ObjCell [(''tags'', Ref 3)], ArrCell [Str ''a'']])"
  by (simp add: matchSchema_def cloneObject_def JSON_stringify_def JSON_parse_def
      sample_engine_def sample_validate_def configure_def fromEntries_def define_own_def
      array_index_def)

lemma reach_sample:
  "a \<in> reach [ArrCell [], ObjCell [(''tags'', Str ''a'')]] (Ref 1) \<Longrightarrow> a = 1"
  by (induction rule: reach.induct) auto

theorem matchSchema_source_unchanged_witness:
  "engine_ok sample_engine \<and>
   0 \<notin> reach [ArrCell [], ObjCell [(''tags'', Str ''a'')]] (Ref 1) \<and>
   reach [ArrCell [], ObjCell [(''tags'', Str ''a'')]] (Ref 1)
     \<subseteq> {..<length [ArrCell [], ObjCell [(''tags'', Str ''a'')]]} \<and>
   matchSchema sample_limit sample_engine [ArrCell [], ObjCell [(''tags'', Str ''a'')]] (Ref 1)
      (ArrayProperty ''tags'') 0 None
     = (Inr (Ref 2), [ArrCell [], ObjCell [(''tags'', Str ''a'')],
                      ObjCell [(''tags'', Ref 3)], ArrCell [Str ''a'']]) \<and>
   [ArrCell [], ObjCell [(''tags'', Str ''a'')],
    ObjCell [(''tags'', Ref 3)], ArrCell [Str ''a'']] ! 1
     = [ArrCell [], ObjCell [(''tags'', Str ''a'')]] ! 1"
proof -
  let ?h = "[ArrCell [], ObjCell [(''tags'', Str ''a'')]]"
  let ?h' = "[ArrCell [], ObjCell [(''tags'', Str ''a'')],
              ObjCell [(''tags'', Ref 3)], ArrCell [Str ''a'']]"
  have errors: "0 \<notin> reach ?h (Ref 1)" using reach_sample by fastforce
  have inside: "reach ?h (Ref 1) \<subseteq> {..<length ?h}" using reach_sample by fastforce
  have source: "1 \<in> reach ?h (Ref 1)" by (rule reach.root) simp
  from matchSchema_source_unchanged[OF sample_engine_ok errors inside matchSchema_sample_coerces]
  have cells: "\<forall>a \<in> reach ?h (Ref 1). ?h' ! a = ?h ! a" by (rule conjunct1)
  from cells source have same: "?h' ! 1 = ?h ! 1" by (rule bspec)
  show ?thesis
    using sample_engine_ok errors inside matchSchema_sample_coerces same by blast
qed

text \<open>
  C1 as stated fails when the \<open>errors\<close> array is the source (or a part of it): the errors
  of the validation are pushed to it. Here the source and the \<open>errors\<close> array are the same
  empty array and the schema asks for an object; after the call the array holds the
  error record.
\<close>

theorem matchSchema_source_aliasing_errors:
  "engine_ok sample_engine \<and>
   0 \<in> reach [ArrCell []] (Ref 0) \<and>
   matchSchema sample_limit sample_engine [ArrCell []] (Ref 0) TypeObject 0 None
     = (Inr (Ref 1), [ArrCell [Ref 2], ArrCell [], type_error [] ''should be object'']) \<and>
   [ArrCell [Ref 2], ArrCell [], type_error [] ''should be object''] ! 0 \<noteq> [ArrCell []] ! 0"
proof -
  have "0 \<in> reach [ArrCell []] (Ref 0)" by (rule reach.root) simp
  moreover have "matchSchema sample_limit sample_engine [ArrCell []] (Ref 0) TypeObject 0 None
     = (Inr (Ref 1), [ArrCell [Ref 2], ArrCell [], type_error [] ''should be object''])"
    by (simp add: matchSchema_def cloneObject_def JSON_stringify_def JSON_parse_def
      sample_engine_def sample_validate_def configure_def push_def sample_limit_def)
  ultimately show ?thesis using sample_engine_ok by simp
qed

text \<open>
  The \<open>errors\<close> array is only appended to, whatever the outcome of the call: with a
  well-behaved engine it holds afterwards what it held, followed by what was pushed;
  and when the call throws, nothing was pushed.
\<close>

lemma matchSchema_errors_append_only:
  assumes ok: "engine_ok eng"
    and arr: "errors < length h" "h ! errors = ArrCell old"
    and run: "matchSchema m eng h source s errors ajvOptions = (r, h')"
  shows "(\<exists>new. h' ! errors = ArrCell (old @ new)) \<and>
         (\<forall>e. r = Inl e \<longrightarrow> h' ! errors = ArrCell old)"
proof -
  obtain r1 h1 where c: "cloneObject h source = (r1, h1)" by (cases "cloneObject h source")
  from cloneObject_allocates[OF c] obtain cells where h1: "h1 = h @ cells" by blast
  have e1: "h1 ! errors = ArrCell old" using h1 arr by (simp add: nth_append)
  show ?thesis
  proof (cases r1)
    case (Inl e)
    with run c e1 show ?thesis by (simp add: matchSchema_def)
  next
    case (Inr result)
    show ?thesis
    proof (cases "configure eng ajvOptions")
      case (Inl e)
      with run c Inr e1 show ?thesis by (simp add: matchSchema_def)
    next
      case ajv: (Inr ajv)
      show ?thesis
      proof (cases "compile eng ajv s")
        case (Inl e)
        with run c Inr ajv e1 show ?thesis by (simp add: matchSchema_def)
      next
        case validate: (Inr validate)
        with ok have f: "frame_ok validate" unfolding engine_ok_def by blast
        obtain outcome h2 where v: "validate h1 result = (outcome, h2)"
          by (cases "validate h1 result")
        from clone_validate_frame[OF c[unfolded Inr] f v] arr
        have e2: "errors < length h2" "h2 ! errors = ArrCell old" by auto
        show ?thesis
        proof (cases outcome)
          case (Inl e)
          with run c \<open>r1 = Inr result\<close> ajv validate v e2 show ?thesis by (simp add: matchSchema_def)
        next
          case reported: (Inr reported)
          show ?thesis
          proof (cases reported)
            case None
            with run c \<open>r1 = Inr result\<close> ajv validate v reported e2 show ?thesis
              by (simp add: matchSchema_def)
          next
            case (Some es)
            show ?thesis
            proof (cases "length es \<le> m")
              case True
              then have "push m h2 errors es = Inr (h2[errors := ArrCell (old @ es)])"
                using e2 by (simp add: push_def)
              with run c \<open>r1 = Inr result\<close> ajv validate v reported Some e2 show ?thesis
                by (auto simp: matchSchema_def)
            next
              case False
              then have "push m h2 errors es = Inl RangeError"
                using e2 by (simp add: push_def)
              with run c \<open>r1 = Inr result\<close> ajv validate v reported Some e2 show ?thesis
                by (auto simp: matchSchema_def)
            qed
          qed
        qed
      qed
    qed
  qed
qed

text \<open>
  C2 (amended). When \<^verbatim>\<open>JSON.stringify\<close> gives a JSON text for the source, the engine
  gives an instance and compiles the schema to a well-behaved validator, the validator
  does not throw, and
  it reports no more error records than a call takes as arguments, \<open>matchSchema\<close>
  returns the copy and throws nothing, whether or not the validation fails; the caller's
  \<open>errors\<close> array then holds its earlier entries, unchanged and in their order, followed
  by the error records of this validation (none when the validator left \<^verbatim>\<open>null\<close>).
\<close>

theorem matchSchema_returns:
  assumes ser: "JSON_stringify h source = Inr (Some serialized)"
    and conf: "configure eng ajvOptions = Inr ajv"
    and comp: "compile eng ajv s = Inr validate"
    and frame: "frame_ok validate"
    and arr: "errors < length h" "h ! errors = ArrCell old"
    and copy: "JSON_parse_value h serialized = (result, h1)"
    and val: "validate h1 result = (Inr reported, h2)"
    and few: "length (case reported of None \<Rightarrow> [] | Some es \<Rightarrow> es) \<le> m"
  shows "\<exists>h'. matchSchema m eng h source s errors ajvOptions = (Inr result, h') \<and>
              h' ! errors = ArrCell (old @ (case reported of None \<Rightarrow> [] | Some es \<Rightarrow> es))"
proof -
  have clone: "cloneObject h source = (Inr result, h1)"
    using ser copy by (simp add: cloneObject_def JSON_parse_def)
  from clone_validate_frame[OF clone frame val] arr
  have e2: "errors < length h2" "h2 ! errors = ArrCell old" by auto
  show ?thesis
  proof (cases reported)
    case None
    with clone conf comp val e2 show ?thesis by (simp add: matchSchema_def)
  next
    case (Some es)
    with few have "push m h2 errors es = Inr (h2[errors := ArrCell (old @ es)])"
      using e2 by (simp add: push_def)
    with clone conf comp val Some e2 show ?thesis by (simp add: matchSchema_def)
  qed
qed

theorem matchSchema_returns_witness:
  "JSON_stringify [ArrCell [Ref 1], type_error [] ''should be object''] (Str ''x'')
     = Inr (Some (JStr ''x'')) \<and>
   configure sample_engine None = Inr () \<and>
   compile sample_engine () TypeObject = Inr (sample_validate TypeObject) \<and>
   frame_ok (sample_validate TypeObject) \<and>
   0 < length [ArrCell [Ref 1], type_error [] ''should be object''] \<and>
   [ArrCell [Ref 1], type_error [] ''should be object''] ! 0 = ArrCell [Ref 1] \<and>
   JSON_parse_value [ArrCell [Ref 1], type_error [] ''should be object''] (JStr ''x'')
     = (Str ''x'', [ArrCell [Ref 1], type_error [] ''should be object'']) \<and>
   sample_validate TypeObject [ArrCell [Ref 1], type_error [] ''should be object''] (Str ''x'')
     = (Inr (Some [Ref 2]),
        [ArrCell [Ref 1], type_error [] ''should be object'', type_error [] ''should be object'']) \<and>
   length [Ref 2] \<le> sample_limit \<and>
   (\<exists>h'. matchSchema sample_limit sample_engine
            [ArrCell [Ref 1], type_error [] ''should be object''] (Str ''x'') TypeObject 0 None
            = (Inr (Str ''x''), h') \<and>
         h' ! 0 = ArrCell [Ref 1, Ref 2])"
proof -
  let ?h = "[ArrCell [Ref 1], type_error [] ''should be object'']"
  have ser: "JSON_stringify ?h (Str ''x'') = Inr (Some (JStr ''x''))"
    by (simp add: JSON_stringify_def)
  have conf: "configure sample_engine None = Inr ()"
    by (simp add: configure_def sample_engine_def)
  have comp: "compile sample_engine () TypeObject = Inr (sample_validate TypeObject)"
    by (simp add: sample_engine_def)
  have arr: "0 < length ?h" "?h ! 0 = ArrCell [Ref 1]" by simp_all
  have copy: "JSON_parse_value ?h (JStr ''x'') = (Str ''x'', ?h)" by simp
  have val: "sample_validate TypeObject ?h (Str ''x'')
      = (Inr (Some [Ref 2]), ?h @ [type_error [] ''should be object''])"
    by (simp add: sample_validate_def)
  have few: "length (case Some [Ref 2] of None \<Rightarrow> [] | Some es \<Rightarrow> es) \<le> sample_limit"
    by (simp add: sample_limit_def)
  from matchSchema_returns[OF ser conf comp sample_validate_frame arr copy val few]
  have "\<exists>h'. matchSchema sample_limit sample_engine ?h (Str ''x'') TypeObject 0 None
            = (Inr (Str ''x''), h') \<and>
         h' ! 0 = ArrCell [Ref 1, Ref 2]"
    by simp
  with ser conf comp sample_validate_frame arr copy val few show ?thesis by simp
qed

text \<open>
  C2 as stated fails: \<open>matchSchema\<close> does not return for every source. For the source
  \<^verbatim>\<open>undefined\<close>, \<^verbatim>\<open>JSON.stringify\<close> gives \<^verbatim>\<open>undefined\<close> and \<^verbatim>\<open>JSON.parse\<close> throws a
  \<^verbatim>\<open>SyntaxError\<close>; the store is untouched.
\<close>

theorem matchSchema_throws_on_undefined:
  "matchSchema sample_limit sample_engine [ArrCell []] Undefined TypeObject 0 None
     = (Inl SyntaxError, [ArrCell []])"
  by (simp add: matchSchema_def cloneObject_def JSON_stringify_def JSON_parse_def)

text \<open>
  A circular structure has no JSON text either: \<^verbatim>\<open>JSON.stringify\<close> throws a \<^verbatim>\<open>TypeError\<close>,
  and so does \<open>matchSchema\<close>.
\<close>

lemma matchSchema_throws_on_cycle:
  "matchSchema sample_limit sample_engine [ArrCell [], ObjCell [(''self'', Ref 1)]] (Ref 1)
      TypeObject 0 None
     = (Inl TypeError, [ArrCell [], ObjCell [(''self'', Ref 1)]])"
  by (simp add: matchSchema_def cloneObject_def JSON_stringify_def)

text \<open>
  The other ways in which a call does not return: the engine throws, or the validator,
  and the exception passes through; the validator reports more error records than
  \<^verbatim>\<open>errors.push(...validate.errors)\<close> can pass as arguments, and the call throws a
  \<^verbatim>\<open>RangeError\<close>. In both cases \<open>errors\<close> is as it was (\<open>matchSchema_errors_append_only\<close>).
\<close>

lemma matchSchema_validator_throws:
  assumes "cloneObject h source = (Inr result, h1)"
    and "configure eng ajvOptions = Inr ajv"
    and "compile eng ajv s = Inr validate"
    and "validate h1 result = (Inl e, h2)"
  shows "matchSchema m eng h source s errors ajvOptions = (Inl e, h2)"
  using assms by (simp add: matchSchema_def)

lemma matchSchema_too_many_errors:
  assumes "cloneObject h source = (Inr result, h1)"
    and "configure eng ajvOptions = Inr ajv"
    and "compile eng ajv s = Inr validate"
    and "validate h1 result = (Inr (Some es), h2)"
    and "errors < length h2" and "h2 ! errors = ArrCell old"
    and "m < length es"
  shows "matchSchema m eng h source s errors ajvOptions = (Inl RangeError, h2)"
  using assms by (simp add: matchSchema_def push_def)

end
